theory Spec2Isabelle
  imports Complex_Main "HOL-Library.Word"
begin

section \<open>Escrow records (utils/escrow.ts)\<close>

text \<open>
  The enum \<open>EscrowState\<close> of the client, in the order of its numeric values 0..6.
\<close>

datatype EscrowState =
  CREATED | FUNDED | NFT_DEPOSITED | ACTIVE | COMPLETED | CANCELLED | DISPUTED

text \<open>
  An \<open>Address\<close> is a hexadecimal string. A \<open>bigint\<close> is an unbounded integer. The field
  \<open>id\<close> of the interface is called \<open>escrow_id\<close> here, \<open>id\<close> being the identity function
  of HOL.
\<close>

type_synonym Address = string

record Escrow =
  escrow_id :: int
  seller :: Address
  buyer :: Address
  nftContract :: Address
  tokenId :: int
  price :: int
  deadline :: int
  state :: EscrowState
  createdAt :: int
  disputeDeadline :: int
  ipfsMetadata :: string
  sellerAgreed :: bool
  buyerAgreed :: bool
  xmtpConversationId :: string

section \<open>Lower-casing of addresses\<close>

text \<open>
  \<open>String.prototype.toLowerCase\<close> on the ASCII range, which holds every character of an
  address: the letters A..Z (codes 65..90) move to a..z (codes 97..122), every other
  character stays.
\<close>

definition toLowerChar :: "char \<Rightarrow> char" where
  "toLowerChar c =
     (let n = (of_char c :: nat) in if 65 \<le> n \<and> n \<le> 90 then char_of (n + 32) else c)"

definition toLowerCase :: "string \<Rightarrow> string" where
  "toLowerCase s = map toLowerChar s"

section \<open>Expiry and the permission predicates\<close>

text \<open>
  \<open>isEscrowExpired\<close> reads the clock: \<open>Date.now() / 1000 > Number(escrow.deadline)\<close>. The
  clock value \<open>now\<close> (milliseconds, an integer) is an explicit argument of every function
  that reads it. The quotient is taken in the reals; the rounding of the double-precision
  quotient is not modelled.
\<close>

definition isEscrowExpired :: "int \<Rightarrow> Escrow \<Rightarrow> bool" where
  "isEscrowExpired now escrow \<longleftrightarrow> (of_int now :: real) / 1000 > of_int (deadline escrow)"

definition canUserFundEscrow :: "int \<Rightarrow> Escrow \<Rightarrow> Address \<Rightarrow> bool" where
  "canUserFundEscrow now escrow userAddress \<longleftrightarrow>
     state escrow = CREATED \<and>
     toLowerCase (buyer escrow) = toLowerCase userAddress \<and>
     \<not> isEscrowExpired now escrow"

definition canUserDepositNFT :: "int \<Rightarrow> Escrow \<Rightarrow> Address \<Rightarrow> bool" where
  "canUserDepositNFT now escrow userAddress \<longleftrightarrow>
     (state escrow = CREATED \<or> state escrow = FUNDED) \<and>
     toLowerCase (seller escrow) = toLowerCase userAddress \<and>
     \<not> isEscrowExpired now escrow"

definition canUserCompleteEscrow :: "Escrow \<Rightarrow> Address \<Rightarrow> bool" where
  "canUserCompleteEscrow escrow userAddress \<longleftrightarrow>
     state escrow = ACTIVE \<and>
     (toLowerCase (buyer escrow) = toLowerCase userAddress \<or>
      toLowerCase (seller escrow) = toLowerCase userAddress)"

definition canUserCancelEscrow :: "Escrow \<Rightarrow> Address \<Rightarrow> bool" where
  "canUserCancelEscrow escrow userAddress =
     (let isParty = (toLowerCase (buyer escrow) = toLowerCase userAddress \<or>
                     toLowerCase (seller escrow) = toLowerCase userAddress)
      in if state escrow = COMPLETED \<or> state escrow = CANCELLED \<or> state escrow = DISPUTED
         then False
         else isParty)"

definition canUserRaiseDispute :: "int \<Rightarrow> Escrow \<Rightarrow> Address \<Rightarrow> bool" where
  "canUserRaiseDispute now escrow userAddress \<longleftrightarrow>
     (state escrow = ACTIVE \<or> state escrow = FUNDED \<or> state escrow = NFT_DEPOSITED) \<and>
     (toLowerCase (buyer escrow) = toLowerCase userAddress \<or>
      toLowerCase (seller escrow) = toLowerCase userAddress) \<and>
     \<not> isEscrowExpired now escrow"

text \<open>
  \<open>ManageEscrowView\<close> of EscrowModal.tsx, once an escrow and a connected address are there:
  \<open>userRole\<close> tests the seller first, and the button "Cancel Expired Escrow" is rendered
  inside the block guarded by \<open>userRole\<close>, under
  \<open>expired && escrow.state !== CANCELLED && escrow.state !== COMPLETED\<close>.
\<close>

datatype role = Seller | Buyer

definition userRole :: "Escrow \<Rightarrow> Address \<Rightarrow> role option" where
  "userRole escrow address =
     (if toLowerCase (seller escrow) = toLowerCase address then Some Seller
      else if toLowerCase (buyer escrow) = toLowerCase address then Some Buyer
      else None)"

definition showCancelExpired :: "int \<Rightarrow> Escrow \<Rightarrow> Address \<Rightarrow> bool" where
  "showCancelExpired now escrow address =
     (let expired = isEscrowExpired now escrow
      in userRole escrow address \<noteq> None \<and>
         (expired \<and> state escrow \<noteq> CANCELLED \<and> state escrow \<noteq> COMPLETED))"

section \<open>The next required action\<close>

definition getNextAction :: "int \<Rightarrow> Escrow \<Rightarrow> Address \<Rightarrow> string" where
  "getNextAction now escrow userAddress =
     (let isExpired = isEscrowExpired now escrow;
          userIsBuyer = (toLowerCase (buyer escrow) = toLowerCase userAddress);
          userIsSeller = (toLowerCase (seller escrow) = toLowerCase userAddress)
      in case state escrow of
           COMPLETED \<Rightarrow> ''Escrow completed successfully''
         | CANCELLED \<Rightarrow> ''Escrow was cancelled''
         | DISPUTED \<Rightarrow>
             (if isExpired then ''Dispute expired - can be auto-resolved''
              else ''Escrow is under dispute - awaiting resolution'')
         | _ \<Rightarrow>
             (if isExpired then ''Escrow expired - funds can be refunded''
              else case state escrow of
                  CREATED \<Rightarrow>
                    (if userIsBuyer then ''Deposit payment to continue''
                     else if userIsSeller then ''Waiting for buyer to deposit payment''
                     else ''No action required'')
                | FUNDED \<Rightarrow>
                    (if userIsSeller then ''Deposit your NFT to activate escrow''
                     else ''Waiting for seller to deposit NFT'')
                | NFT_DEPOSITED \<Rightarrow>
                    (if userIsBuyer then ''Deposit payment to activate escrow''
                     else ''Waiting for buyer to deposit payment'')
                | ACTIVE \<Rightarrow>
                    (if userIsBuyer then ''Complete escrow to receive NFT''
                     else ''Waiting for buyer to complete or auto-complete'')
                | _ \<Rightarrow> ''No action required''))"

section \<open>The transition table of the specification\<close>

text \<open>
  The lawful graph as the specification words it, per action, state, role of the caller
  and expiry flag. \<open>spec_cancelExpired\<close> is the specification's rule for the sixth action;
  it reads the dispute's own deadline. \<open>client_cancelExpired\<close> is the rule the client
  follows: the escrow's deadline alone, in every state but COMPLETED and CANCELLED.
\<close>

datatype action = Fund | DepositNFT | Complete | Cancel | RaiseDispute

fun lawful :: "action \<Rightarrow> EscrowState \<Rightarrow> role \<Rightarrow> bool \<Rightarrow> bool" where
  "lawful Fund s r expired \<longleftrightarrow> r = Buyer \<and> s = CREATED \<and> \<not> expired"
| "lawful DepositNFT s r expired \<longleftrightarrow> r = Seller \<and> (s = CREATED \<or> s = FUNDED) \<and> \<not> expired"
| "lawful Complete s r expired \<longleftrightarrow> s = ACTIVE"
| "lawful Cancel s r expired \<longleftrightarrow> s \<noteq> COMPLETED \<and> s \<noteq> CANCELLED \<and> s \<noteq> DISPUTED"
| "lawful RaiseDispute s r expired \<longleftrightarrow>
     (s = FUNDED \<or> s = NFT_DEPOSITED \<or> s = ACTIVE) \<and> \<not> expired"

definition spec_cancelExpired :: "EscrowState \<Rightarrow> bool \<Rightarrow> bool \<Rightarrow> bool" where
  "spec_cancelExpired s expired disputeExpired \<longleftrightarrow>
     (expired \<and> s \<noteq> COMPLETED \<and> s \<noteq> CANCELLED \<and> s \<noteq> DISPUTED) \<or>
     (s = DISPUTED \<and> disputeExpired)"

definition client_cancelExpired :: "EscrowState \<Rightarrow> bool \<Rightarrow> bool" where
  "client_cancelExpired s expired \<longleftrightarrow> expired \<and> s \<noteq> COMPLETED \<and> s \<noteq> CANCELLED"

text \<open>The roles a user holds in an escrow, by the case-insensitive comparison of the client.\<close>

fun hasRole :: "Escrow \<Rightarrow> Address \<Rightarrow> role \<Rightarrow> bool" where
  "hasRole escrow user Buyer \<longleftrightarrow> toLowerCase (buyer escrow) = toLowerCase user"
| "hasRole escrow user Seller \<longleftrightarrow> toLowerCase (seller escrow) = toLowerCase user"

definition disputeExpired :: "int \<Rightarrow> Escrow \<Rightarrow> bool" where
  "disputeExpired now escrow \<longleftrightarrow>
     (of_int now :: real) / 1000 > of_int (disputeDeadline escrow)"

text \<open>An action is open to a user when it is lawful for one of the roles the user holds.\<close>

definition permitted :: "action \<Rightarrow> int \<Rightarrow> Escrow \<Rightarrow> Address \<Rightarrow> bool" where
  "permitted a now escrow user \<longleftrightarrow>
     (hasRole escrow user Buyer \<and> lawful a (state escrow) Buyer (isEscrowExpired now escrow)) \<or>
     (hasRole escrow user Seller \<and> lawful a (state escrow) Seller (isEscrowExpired now escrow))"

definition isParty :: "Escrow \<Rightarrow> Address \<Rightarrow> bool" where
  "isParty escrow user \<longleftrightarrow> hasRole escrow user Buyer \<or> hasRole escrow user Seller"

section \<open>Letter case of addresses\<close>

text \<open>
  \<open>swapCase\<close> turns an ASCII letter into the same letter of the other case. Two strings are
  the same up to case when they have the same length and agree, position by position, up
  to \<open>swapCase\<close>.
\<close>

definition swapCase :: "char \<Rightarrow> char" where
  "swapCase c =
     (let n = (of_char c :: nat)
      in if 65 \<le> n \<and> n \<le> 90 then char_of (n + 32)
         else if 97 \<le> n \<and> n \<le> 122 then char_of (n - 32)
         else c)"

definition sameUpToCase :: "string \<Rightarrow> string \<Rightarrow> bool" where
  "sameUpToCase a b = list_all2 (\<lambda>c d. d = c \<or> d = swapCase c) a b"

section \<open>Sample escrows\<close>

definition sampleEscrow :: "EscrowState \<Rightarrow> Escrow" where
  "sampleEscrow s =
     \<lparr>escrow_id = 7, seller = ''0xAAaa'', buyer = ''0xbbBB'', nftContract = ''0xcccc'',
      tokenId = 42, price = 1500000000000000000, deadline = 100, state = s,
      createdAt = 10, disputeDeadline = 1000, ipfsMetadata = [], sellerAgreed = False,
      buyerAgreed = False, xmtpConversationId = []\<rparr>"

section \<open>Conversation identifiers as 32-byte keys\<close>

text \<open>
  A string of the client is a list of 16-bit code units. \<open>TextEncoder.encode\<close> reads it as
  a list of Unicode scalar values: a high surrogate followed by a low surrogate is one
  scalar value from \<open>0x10000\<close> on, every other surrogate is replaced by \<open>0xFFFD\<close>, and
  any other code unit stands for itself. Every scalar value is then written in UTF-8, on
  one to four bytes. A \<open>Uint8Array\<close> is a list of numbers below 256.
\<close>

type_synonym codeUnit = "16 word"

definition isHighSurrogate :: "codeUnit \<Rightarrow> bool" where
  "isHighSurrogate u \<longleftrightarrow> 0xD800 \<le> u \<and> u \<le> 0xDBFF"

definition isLowSurrogate :: "codeUnit \<Rightarrow> bool" where
  "isLowSurrogate u \<longleftrightarrow> 0xDC00 \<le> u \<and> u \<le> 0xDFFF"

fun toScalarValues :: "codeUnit list \<Rightarrow> int list" where
  "toScalarValues [] = []"
| "toScalarValues [u] =
     (if isHighSurrogate u \<or> isLowSurrogate u then [0xFFFD] else [uint u])"
| "toScalarValues (u # v # rest) =
     (if isHighSurrogate u \<and> isLowSurrogate v then
        (0x10000 + (uint u - 0xD800) * 0x400 + (uint v - 0xDC00)) # toScalarValues rest
      else if isHighSurrogate u \<or> isLowSurrogate u then 0xFFFD # toScalarValues (v # rest)
      else uint u # toScalarValues (v # rest))"

definition utf8 :: "int \<Rightarrow> int list" where
  "utf8 c =
     (if c < 0x80 then [c]
      else if c < 0x800 then [0xC0 + c div 64, 0x80 + c mod 64]
      else if c < 0x10000 then [0xE0 + c div 4096, 0x80 + (c div 64) mod 64, 0x80 + c mod 64]
      else [0xF0 + c div 262144, 0x80 + (c div 4096) mod 64, 0x80 + (c div 64) mod 64,
            0x80 + c mod 64])"

definition encode :: "codeUnit list \<Rightarrow> int list" where
  "encode s = concat (map utf8 (toScalarValues s))"

text \<open>
  A string is well formed when each of its surrogates belongs to a pair, a high surrogate
  followed by a low one. The scalar values of a well-formed string give the string back.
\<close>

fun wellFormed :: "codeUnit list \<Rightarrow> bool" where
  "wellFormed [] \<longleftrightarrow> True"
| "wellFormed [u] \<longleftrightarrow> \<not> (isHighSurrogate u \<or> isLowSurrogate u)"
| "wellFormed (u # v # rest) \<longleftrightarrow>
     (if isHighSurrogate u \<and> isLowSurrogate v then wellFormed rest
      else \<not> (isHighSurrogate u \<or> isLowSurrogate u) \<and> wellFormed (v # rest))"

fun fromScalarValues :: "int list \<Rightarrow> codeUnit list" where
  "fromScalarValues [] = []"
| "fromScalarValues (c # cs) =
     (if c < 0x10000 then word_of_int c # fromScalarValues cs
      else word_of_int (0xD800 + (c - 0x10000) div 0x400) #
           word_of_int (0xDC00 + (c - 0x10000) mod 0x400) # fromScalarValues cs)"

text \<open>\<open>Number.prototype.toString(16)\<close> on a non-negative integer, and \<open>padStart\<close>.\<close>

definition hexDigit :: "int \<Rightarrow> char" where
  "hexDigit d = ''0123456789abcdef'' ! nat d"

function toString16 :: "int \<Rightarrow> string" where
  "toString16 n =
     (if n < 16 then [hexDigit n] else toString16 (n div 16) @ [hexDigit (n mod 16)])"
  by pat_completeness auto
termination
  by (relation "measure (\<lambda>n. nat n)") auto

declare toString16.simps [simp del]

definition padStart :: "nat \<Rightarrow> char \<Rightarrow> string \<Rightarrow> string" where
  "padStart targetLength c s = replicate (targetLength - length s) c @ s"

text \<open>
  \<open>conversationIdToBytes32\<close>: a zeroed buffer of 32 bytes, overwritten from its start by
  the first \<open>min(data.length, 32)\<close> bytes of the encoded identifier, then printed as
  \<open>0x\<close> and two hexadecimal digits per byte.
\<close>

definition conversationIdToBytes32 :: "codeUnit list \<Rightarrow> string" where
  "conversationIdToBytes32 conversationId =
     (let data = encode conversationId;
          bytes32 = replicate 32 (0::int);
          length = min (length data) 32;
          bytes32 = take length data @ drop length bytes32;
          hex = concat (map (\<lambda>b. padStart 2 CHR ''0'' (toString16 b)) bytes32)
      in ''0x'' @ hex)"

text \<open>
  The way back, which the client does not have: it is defined here to state the round
  trip. The key is read two hexadecimal digits at a time, and the zero bytes at its end
  are dropped; what remains are the bytes of an identifier.
\<close>

definition hexVal :: "char \<Rightarrow> int" where
  "hexVal c = int (length (takeWhile (\<lambda>d. d \<noteq> c) ''0123456789abcdef''))"

fun fromHex :: "string \<Rightarrow> int list" where
  "fromHex (a # b # rest) = (16 * hexVal a + hexVal b) # fromHex rest"
| "fromHex _ = []"

definition stripTrailingZeros :: "int list \<Rightarrow> int list" where
  "stripTrailingZeros bs = rev (dropWhile (\<lambda>b. b = 0) (rev bs))"

definition bytes32ToBytes :: "string \<Rightarrow> int list" where
  "bytes32ToBytes hex = stripTrailingZeros (fromHex (drop 2 hex))"

text \<open>An encoded identifier has no trailing zero when it is empty or its last byte is not zero.\<close>

definition noTrailingZero :: "int list \<Rightarrow> bool" where
  "noTrailingZero bs \<longleftrightarrow> bs = [] \<or> last bs \<noteq> 0"

section \<open>Reading an escrow and polling for a state\<close>

text \<open>
  What a call of the wallet, of the chain client or of the price parser may throw. The
  outcome of a call is a value of \<open>error + 'a\<close>: \<open>Inl\<close> is a thrown error, \<open>Inr\<close> the
  value returned.
\<close>

datatype error =
  ContractRevert | TransportFailure | UserRejected | InvalidDecimalNumber | BigIntSyntaxError

text \<open>
  \<open>getEscrow\<close>: the read \<open>readContract\<close> is an argument. The record is copied field by
  field; the \<open>catch\<close> clause logs any error of the read and returns \<open>null\<close>.
\<close>

definition getEscrow :: "(int \<Rightarrow> error + Escrow) \<Rightarrow> int \<Rightarrow> error + Escrow option" where
  "getEscrow readContract escrowId =
     (case readContract escrowId of
        Inr result \<Rightarrow>
          Inr (Some \<lparr>escrow_id = escrow_id result, seller = seller result,
            buyer = buyer result, nftContract = nftContract result,
            tokenId = tokenId result, price = price result, deadline = deadline result,
            state = state result, createdAt = createdAt result,
            disputeDeadline = disputeDeadline result, ipfsMetadata = ipfsMetadata result,
            sellerAgreed = sellerAgreed result, buyerAgreed = buyerAgreed result,
            xmtpConversationId = xmtpConversationId result\<rparr>)
      | Inl error \<Rightarrow> Inr None)"

text \<open>
  \<open>waitForEscrowStateChange\<close>: the loop \<open>for (attempt = 0; attempt < maxAttempts; attempt++)\<close>.
  \<open>getEscrowAt k\<close> is the outcome of the call of \<open>getEscrow(escrowId)\<close> that follows \<open>k\<close>
  earlier calls; \<open>reads\<close> counts the calls made, and is returned with the result. The
  \<open>catch\<close> clause of the loop body logs a thrown error and goes on with the next attempt.
  The delay between two attempts takes time and changes nothing else; it is left out.
\<close>

function waitLoop ::
  "(nat \<Rightarrow> error + Escrow option) \<Rightarrow> EscrowState \<Rightarrow> int \<Rightarrow> int \<Rightarrow> nat \<Rightarrow> bool \<times> nat" where
  "waitLoop getEscrowAt expectedState maxAttempts attempt reads =
     (if attempt < maxAttempts then
        (case getEscrowAt reads of
           Inr (Some escrow) \<Rightarrow>
             if state escrow = expectedState then (True, reads + 1)
             else waitLoop getEscrowAt expectedState maxAttempts (attempt + 1) (reads + 1)
         | Inr None \<Rightarrow> waitLoop getEscrowAt expectedState maxAttempts (attempt + 1) (reads + 1)
         | Inl error \<Rightarrow> waitLoop getEscrowAt expectedState maxAttempts (attempt + 1) (reads + 1))
      else (False, reads))"
  by pat_completeness auto
termination
  by (relation "measure (\<lambda>(g, s, m, a, r). nat (m - a))") auto

declare waitLoop.simps [simp del]

definition waitForEscrowStateChange ::
  "(nat \<Rightarrow> error + Escrow option) \<Rightarrow> EscrowState \<Rightarrow> int \<Rightarrow> bool \<times> nat" where
  "waitForEscrowStateChange getEscrowAt expectedState maxAttempts =
     waitLoop getEscrowAt expectedState maxAttempts 0 0"

text \<open>A read observes the expected state: \<open>escrow && escrow.state === expectedState\<close>.\<close>

definition observes :: "(nat \<Rightarrow> error + Escrow option) \<Rightarrow> EscrowState \<Rightarrow> nat \<Rightarrow> bool" where
  "observes getEscrowAt expectedState k =
     (case getEscrowAt k of Inr (Some escrow) \<Rightarrow> state escrow = expectedState | _ \<Rightarrow> False)"

section \<open>The coordinator of EscrowModal.tsx\<close>

text \<open>
  The state of the modal that \<open>waitAndRefresh\<close> and \<open>loadEscrowData\<close> touch: the escrow
  shown, the loading flag and the toasts raised, in order. \<open>chainReads\<close> counts the reads of
  the chain made so far, and \<open>chain k\<close> is what the read after \<open>k\<close> earlier reads returns.
  \<open>updatesNotified\<close> counts the calls of the callback \<open>onEscrowUpdated\<close>.
\<close>

type_synonym toast = "string \<times> string"

record modal =
  modalEscrow :: "Escrow option"
  modalIsLoading :: bool
  modalToasts :: "toast list"
  chainReads :: nat
  updatesNotified :: nat

definition addToast :: "string \<Rightarrow> string \<Rightarrow> modal \<Rightarrow> modal" where
  "addToast message type m = m\<lparr>modalToasts := modalToasts m @ [(message, type)]\<rparr>"

definition loadEscrowData ::
  "(nat \<Rightarrow> int \<Rightarrow> error + Escrow) \<Rightarrow> int option \<Rightarrow> modal \<Rightarrow> modal" where
  "loadEscrowData chain escrowId m =
     (case escrowId of
        None \<Rightarrow> m
      | Some i \<Rightarrow>
          if i = 0 then m
          else
            (let m1 = m\<lparr>modalIsLoading := True\<rparr>;
                 m2 = (case getEscrow (chain (chainReads m1)) i of
                         Inr escrowData \<Rightarrow>
                           m1\<lparr>modalEscrow := escrowData, chainReads := chainReads m1 + 1\<rparr>
                       | Inl error \<Rightarrow>
                           addToast ''Failed to load escrow data'' ''error''
                             (m1\<lparr>chainReads := chainReads m1 + 1\<rparr>))
             in m2\<lparr>modalIsLoading := False\<rparr>))"

text \<open>
  \<open>waitAndRefresh\<close>: \<open>receipt\<close> is the outcome of waiting for the transaction receipt,
  \<open>onEscrowUpdated\<close> the outcome of the optional callback. The test
  \<open>expectedState && escrowId\<close> is false for an absent value, for the state CREATED (the
  number 0) and for the identifier 0. Every error thrown inside the \<open>try\<close> block ends in
  the \<open>catch\<close> clause, which raises a warning toast; nothing is thrown to the caller.
\<close>

definition waitAndRefresh ::
  "(nat \<Rightarrow> int \<Rightarrow> error + Escrow) \<Rightarrow> error + unit \<Rightarrow> (error + unit) option \<Rightarrow>
   int option \<Rightarrow> EscrowState option \<Rightarrow> modal \<Rightarrow> (error + unit) \<times> modal" where
  "waitAndRefresh chain receipt onEscrowUpdated escrowId expectedState m =
     (case receipt of
        Inl error \<Rightarrow>
          (Inr (), addToast ''Transaction may still be pending. Please refresh manually.''
                     ''warning'' m)
      | Inr _ \<Rightarrow>
          (let m1 =
                 (case (expectedState, escrowId) of
                    (Some s, Some i) \<Rightarrow>
                      if s \<noteq> CREATED \<and> i \<noteq> 0 then
                        (case waitForEscrowStateChange
                                (\<lambda>k. getEscrow (chain (chainReads m + k)) i) s 15 of
                           (stateUpdated, n) \<Rightarrow>
                             (let m' = m\<lparr>chainReads := chainReads m + n\<rparr>
                              in if \<not> stateUpdated then
                                   addToast
                                     ''Transaction completed but state may still be updating. Please refresh manually.''
                                     ''warning'' m'
                                 else m'))
                      else m
                  | _ \<Rightarrow> m);
               m2 = loadEscrowData chain escrowId m1
           in case onEscrowUpdated of
                None \<Rightarrow> (Inr (), m2)
              | Some (Inr _) \<Rightarrow> (Inr (), m2\<lparr>updatesNotified := updatesNotified m2 + 1\<rparr>)
              | Some (Inl error) \<Rightarrow>
                  (Inr (), addToast ''Transaction may still be pending. Please refresh manually.''
                             ''warning'' m2)))"

text \<open>The toast raised when the poll ends without the expected state.\<close>

definition updatingWarning :: toast where
  "updatingWarning =
     (''Transaction completed but state may still be updating. Please refresh manually.'',
      ''warning'')"

section \<open>Calls submitted to the wallet\<close>

text \<open>
  A call handed to \<open>writeContract\<close>: the contract address, the function name, the
  arguments and the attached value, if any. The wallet is an argument of every function
  that submits a call: \<open>writeContract\<close> gives the outcome of a submission and
  \<open>waitForTransactionReceipt\<close> the outcome of waiting for a receipt. A function that
  submits calls returns the trace of what it did, in order, with its result.
\<close>

type_synonym hash = string

datatype arg = AddressArg Address | UintArg int | Bytes32Arg string | StringArg string

record contractCall =
  callAddress :: Address
  functionName :: string
  args :: "arg list"
  callValue :: "int option"

datatype event = WriteContract contractCall | WaitForTransactionReceipt hash

definition NFT_ESCROW_CONTRACT_ADDRESS :: Address where
  "NFT_ESCROW_CONTRACT_ADDRESS = ''0x9B581eC73126fE9561dAED14B7B0a2B7E61A0A18''"

definition approveCall :: "Address \<Rightarrow> int \<Rightarrow> contractCall" where
  "approveCall nftContract' tokenId' =
     \<lparr>callAddress = nftContract', functionName = ''approve'',
      args = [AddressArg NFT_ESCROW_CONTRACT_ADDRESS, UintArg tokenId'], callValue = None\<rparr>"

definition depositNFTCall :: "int \<Rightarrow> contractCall" where
  "depositNFTCall escrowId =
     \<lparr>callAddress = NFT_ESCROW_CONTRACT_ADDRESS, functionName = ''depositNFT'',
      args = [UintArg escrowId], callValue = None\<rparr>"

text \<open>
  \<open>depositNFT\<close>: the approval is submitted, its receipt is awaited, and the deposit is
  submitted. An error thrown by the first two steps leaves the function at once.
\<close>

definition depositNFT ::
  "(contractCall \<Rightarrow> error + hash) \<Rightarrow> (hash \<Rightarrow> error + unit) \<Rightarrow> int \<Rightarrow> Address \<Rightarrow> int \<Rightarrow>
   event list \<times> (error + hash)" where
  "depositNFT writeContract waitForTransactionReceipt escrowId nftContract' tokenId' =
     (case writeContract (approveCall nftContract' tokenId') of
        Inl error \<Rightarrow> ([WriteContract (approveCall nftContract' tokenId')], Inl error)
      | Inr approveHash \<Rightarrow>
          (case waitForTransactionReceipt approveHash of
             Inl error \<Rightarrow>
               ([WriteContract (approveCall nftContract' tokenId'),
                 WaitForTransactionReceipt approveHash], Inl error)
           | Inr _ \<Rightarrow>
               ([WriteContract (approveCall nftContract' tokenId'),
                 WaitForTransactionReceipt approveHash,
                 WriteContract (depositNFTCall escrowId)],
                writeContract (depositNFTCall escrowId))))"

text \<open>Sample reads and an empty modal.\<close>

definition sampleReads :: "nat \<Rightarrow> error + Escrow option" where
  "sampleReads k =
     (if k = 0 then Inr None
      else if k = 1 then Inl TransportFailure
      else if k = 2 then Inr (Some (sampleEscrow CREATED))
      else Inr (Some (sampleEscrow FUNDED)))"

definition emptyModal :: modal where
  "emptyModal =
     \<lparr>modalEscrow = None, modalIsLoading = False, modalToasts = [], chainReads = 0,
      updatesNotified = 0\<rparr>"

section \<open>Prices in decimal units and in base units\<close>

text \<open>
  Modelled from the spec: \<open>parseEther\<close> and \<open>formatEther\<close>, which \<open>parsePrice\<close> and
  \<open>formatPrice\<close> call, belong to the package viem; the repository imports them and their
  source is not among its files. The specification says that a price in a human decimal
  unit is converted to the integer base unit, of which a unit holds \<open>10 ^ 18\<close>. The
  definitions below read and print decimal numerals as the package does; they work on
  \<open>int\<close>, as a \<open>bigint\<close> does. A price is a string of 8-bit characters: a character other
  than a digit, the minus sign and the point makes a numeral invalid, whatever its code.
\<close>

definition isDigit :: "char \<Rightarrow> bool" where
  "isDigit c \<longleftrightarrow> 48 \<le> (of_char c :: nat) \<and> (of_char c :: nat) \<le> 57"

definition digitValue :: "char \<Rightarrow> int" where
  "digitValue c = of_char c - 48"

definition decimalValue :: "string \<Rightarrow> int" where
  "decimalValue ds = foldl (\<lambda>acc c. 10 * acc + digitValue c) 0 ds"

definition bigIntOfString :: "string \<Rightarrow> int" where
  "bigIntOfString s =
     (case s of
        c # ds \<Rightarrow> if c = CHR ''-'' then - decimalValue ds else decimalValue s
      | [] \<Rightarrow> 0)"

definition trimTrailingZeros :: "string \<Rightarrow> string" where
  "trimTrailingZeros fraction = rev (dropWhile (\<lambda>c. c = CHR ''0'') (rev fraction))"

definition padEnd :: "nat \<Rightarrow> char \<Rightarrow> string \<Rightarrow> string" where
  "padEnd targetLength c s = s @ replicate (targetLength - length s) c"

text \<open>\<open>BigInt.prototype.toString\<close> on a non-negative integer.\<close>

definition decDigit :: "int \<Rightarrow> char" where
  "decDigit d = ''0123456789'' ! nat d"

function toString10 :: "int \<Rightarrow> string" where
  "toString10 n =
     (if n < 10 then [decDigit n] else toString10 (n div 10) @ [decDigit (n mod 10)])"
  by pat_completeness auto
termination
  by (relation "measure (\<lambda>n. nat n)") auto

declare toString10.simps [simp del]

text \<open>
  Modelled from the spec: the test of \<open>parseUnits\<close> against the regular expression
  \<open>^(-?)([0-9]*)\.?([0-9]*)$\<close>. A numeral is at most one minus sign, digits, at most one
  point, and digits; each of the two runs of digits may be empty.
\<close>

definition matchesDecimalNumber :: "string \<Rightarrow> bool" where
  "matchesDecimalNumber value =
     (let unsigned = (case value of c # cs \<Rightarrow> if c = CHR ''-'' then cs else value | [] \<Rightarrow> value);
          rest = dropWhile isDigit unsigned;
          rest = (case rest of c # cs \<Rightarrow> if c = CHR ''.'' then cs else rest | [] \<Rightarrow> rest)
      in list_all isDigit rest)"

text \<open>
  Modelled from the spec: \<open>Math.round(Number(unit + '.' + right))\<close>, where \<open>unit\<close> is one
  digit, or empty, and \<open>right\<close> is a run of digits. \<open>Number\<close> reads the numeral as the
  nearest double, a tie going to the even significand, and \<open>Math.round\<close> takes a double
  to the nearest integer, a tie going up. So the result is \<open>unit + 1\<close> when the double is
  at least \<open>unit + 1/2\<close>, and \<open>unit\<close> otherwise. The double \<open>unit + 1/2\<close> has an even
  significand, and the doubles below it are \<open>1 / 2 ^ 54\<close> apart when \<open>unit\<close> is 0,
  \<open>1 / 2 ^ 52\<close> apart when it is 1, \<open>1 / 2 ^ 51\<close> when it is 2 or 3, \<open>1 / 2 ^ 50\<close> from 4
  to 7, and \<open>1 / 2 ^ 49\<close> when it is 8 or 9. A numeral is read as \<open>unit + 1/2\<close> or more
  exactly when it is no more than half a step below it, that is when its fraction
  \<open>0.right\<close> is at least \<open>1/2 - 1 / 2 ^ k\<close>, with \<open>k\<close> = 55, 53, 52, 51, 50 in these
  five cases. Both sides of this comparison are multiplied by \<open>2 ^ k * 10 ^ length right\<close>
  below. With an empty \<open>unit\<close> and an empty \<open>right\<close> the package gets \<open>NaN\<close>, which it
  only compares with 1; the definition gives 0 there.
\<close>

definition roundNumber :: "string \<Rightarrow> string \<Rightarrow> int" where
  "roundNumber unit right =
     (let u = decimalValue unit;
          k = (if u < 1 then 55 else if u < 2 then 53 else if u < 4 then 52
               else if u < 8 then 51 else 50 :: nat)
      in if (2 ^ (k - 1) - 1) * 10 ^ length right \<le> decimalValue right * 2 ^ k
         then u + 1 else u)"

text \<open>
  Modelled from the spec: the branch of \<open>parseUnits\<close> that rounds off a fraction longer
  than \<open>decimals\<close>. The fraction is cut into \<open>left\<close>, its first \<open>decimals - 1\<close> digits,
  \<open>unit\<close>, the next digit, and \<open>right\<close>, the rest. When \<open>unit.right\<close> rounds to 10, one
  is added to \<open>left\<close>, a zero is appended, and a carry out of the fraction goes to the
  integer part. It returns the integer part and the fraction.
\<close>

definition roundOff :: "string \<Rightarrow> string \<Rightarrow> nat \<Rightarrow> string \<times> string" where
  "roundOff integer fraction decimals =
     (let left = take (decimals - 1) fraction;
          unit = take 1 (drop (decimals - 1) fraction);
          right = drop decimals fraction;
          rounded = roundNumber unit right;
          fraction =
            (if rounded > 9
             then padStart (length left + 1) CHR ''0'' (toString10 (bigIntOfString left + 1) @ ''0'')
             else left @ toString10 rounded);
          integer =
            (if length fraction > decimals then toString10 (bigIntOfString integer + 1)
             else integer);
          fraction = (if length fraction > decimals then drop 1 fraction else fraction)
      in (integer, take decimals fraction))"

text \<open>
  Modelled from the spec: \<open>parseUnits\<close> of viem, which is not among the sources. A string
  that is not a numeral is refused as \<open>InvalidDecimalNumber\<close>. A numeral is split at its
  point, the fraction being \<open>0\<close> when there is no point; the minus sign is taken off the
  integer part; the zeros at the end of the fraction are dropped. With no decimals the
  fraction is rounded into the integer part; a fraction longer than \<open>decimals\<close> is rounded
  off; a shorter one is padded with zeros. The sign, the integer part and the fraction
  are then read as one \<open>bigint\<close>, which throws on a lone minus sign.
\<close>

definition parseUnits :: "string \<Rightarrow> nat \<Rightarrow> error + int" where
  "parseUnits value decimals =
     (if \<not> matchesDecimalNumber value then Inl InvalidDecimalNumber
      else
        (let integer = takeWhile (\<lambda>c. c \<noteq> CHR ''.'') value;
             fraction = (case dropWhile (\<lambda>c. c \<noteq> CHR ''.'') value of
                           c # cs \<Rightarrow> cs | [] \<Rightarrow> ''0'');
             negative = (case integer of c # cs \<Rightarrow> c = CHR ''-'' | [] \<Rightarrow> False);
             integer = (if negative then drop 1 integer else integer);
             fraction = trimTrailingZeros fraction;
             (integer, fraction) =
               (if decimals = 0 then
                  (if roundNumber [] fraction = 1 then toString10 (bigIntOfString integer + 1)
                   else integer, [])
                else if length fraction > decimals then roundOff integer fraction decimals
                else (integer, padEnd decimals CHR ''0'' fraction));
             digits = (if negative then ''-'' else []) @ integer @ fraction
         in if digits = ''-'' then Inl BigIntSyntaxError else Inr (bigIntOfString digits)))"

definition parseEther :: "string \<Rightarrow> error + int" where
  "parseEther ether = parseUnits ether 18"

text \<open>
  Modelled from the spec: \<open>formatUnits\<close> of viem, which is not among the sources. The
  absolute value is printed in decimal, padded on the left with zeros to \<open>decimals\<close>
  digits and cut \<open>decimals\<close> digits before its end; the fraction loses the zeros at its
  end, and the point is printed only before a non-empty fraction.
\<close>

definition formatUnits :: "int \<Rightarrow> nat \<Rightarrow> string" where
  "formatUnits value decimals =
     (let negative = (value < 0);
          display = toString10 \<bar>value\<bar>;
          display = padStart decimals CHR ''0'' display;
          integer = take (length display - decimals) display;
          fraction = drop (length display - decimals) display;
          fraction = trimTrailingZeros fraction
      in (if negative then ''-'' else '''') @ (if integer = [] then ''0'' else integer) @
         (if fraction = [] then [] else ''.'' @ fraction))"

definition formatEther :: "int \<Rightarrow> string" where
  "formatEther wei = formatUnits wei 18"

text \<open>\<open>formatPrice\<close> and \<open>parsePrice\<close> of the client.\<close>

definition formatPrice :: "int \<Rightarrow> string" where
  "formatPrice priceWei = formatEther priceWei"

definition parsePrice :: "string \<Rightarrow> error + int" where
  "parsePrice priceEth' = parseEther priceEth'"

text \<open>
  The number that a decimal numeral denotes: its sign, the value of its integer part and
  the value of its fraction over the matching power of ten. It is the number of decimal
  units that a price means, and is defined here to state the conversion.
\<close>

definition sign :: "bool \<Rightarrow> string" where
  "sign negative = (if negative then ''-'' else [])"

definition numeralValue :: "bool \<Rightarrow> string \<Rightarrow> string \<Rightarrow> real" where
  "numeralValue negative integer fraction =
     (if negative then - 1 else 1) *
     (of_int (decimalValue integer) + of_int (decimalValue fraction) / 10 ^ length fraction)"

section \<open>Creating an escrow and raising a dispute\<close>

text \<open>
  The argument of \<open>createEscrow\<close>. The fields \<open>seller\<close>, \<open>buyer\<close>, \<open>nftContract\<close>,
  \<open>tokenId\<close> and \<open>ipfsMetadata\<close> carry the prefix \<open>param_\<close>, their names being fields of
  \<open>Escrow\<close> already. \<open>durationHours\<close> is an integer number of hours: the caller passes
  \<open>parseInt\<close> of the option selected, one of 1, 6, 12, 24, 72 and 168. The optional
  \<open>ipfsMetadata\<close> is an option.
\<close>

record createEscrowParams =
  param_seller :: Address
  param_buyer :: Address
  param_nftContract :: Address
  param_tokenId :: int
  priceEth :: string
  durationHours :: int
  conversationId :: "codeUnit list"
  param_ipfsMetadata :: "string option"

text \<open>
  \<open>createEscrow\<close>: the price is parsed, the duration is multiplied by 3600, the
  conversation identifier is encoded, and the call is submitted. An error thrown on the
  way is logged and thrown again.
\<close>

definition createEscrow ::
  "(contractCall \<Rightarrow> error + hash) \<Rightarrow> createEscrowParams \<Rightarrow> event list \<times> (error + hash)" where
  "createEscrow writeContract params =
     (case parsePrice (priceEth params) of
        Inl error \<Rightarrow> ([], Inl error)
      | Inr price' \<Rightarrow>
          (let duration = durationHours params * 3600;
               xmtpConversationId' = conversationIdToBytes32 (conversationId params);
               call =
                 \<lparr>callAddress = NFT_ESCROW_CONTRACT_ADDRESS,
                  functionName = ''createEscrow'',
                  args =
                    [AddressArg (param_seller params),
                     AddressArg (param_buyer params),
                     AddressArg (param_nftContract params),
                     UintArg (param_tokenId params),
                     UintArg price',
                     UintArg duration,
                     Bytes32Arg xmtpConversationId',
                     StringArg (case param_ipfsMetadata params of
                                  Some s \<Rightarrow> s | None \<Rightarrow> '''')],
                  callValue = None\<rparr>
           in ([WriteContract call], writeContract call)))"

text \<open>\<open>raiseDispute\<close>: the call carries the value \<open>parseEther('0.01')\<close>.\<close>

definition raiseDispute ::
  "(contractCall \<Rightarrow> error + hash) \<Rightarrow> int \<Rightarrow> string \<Rightarrow> event list \<times> (error + hash)" where
  "raiseDispute writeContract escrowId reason =
     (case parseEther ''0.01'' of
        Inl error \<Rightarrow> ([], Inl error)
      | Inr fee \<Rightarrow>
          (let call =
                 \<lparr>callAddress = NFT_ESCROW_CONTRACT_ADDRESS,
                  functionName = ''raiseDispute'',
                  args = [UintArg escrowId, StringArg reason],
                  callValue = Some fee\<rparr>
           in ([WriteContract call], writeContract call)))"

section \<open>Numbering the escrows of a conversation\<close>

text \<open>
  \<open>getConversationEscrowNumber\<close> of utils/escrowMessages.ts returns \<open>#1\<close> whatever it is
  given. No component calls it or the functions of that file that use it: the number
  that the client shows is computed by \<open>loadEscrowNumber\<close> below.
\<close>

definition getConversationEscrowNumber :: "codeUnit list \<Rightarrow> int \<Rightarrow> string" where
  "getConversationEscrowNumber conversationId' escrowId = ''#1''"







text \<open>
  A sample argument of \<open>createEscrow\<close>; its conversation identifier is \<open>chat-01\<close> in code
  units.
\<close>

definition sampleParams :: createEscrowParams where
  "sampleParams =
     \<lparr>param_seller = ''0xAAaa'', param_buyer = ''0xbbBB'', param_nftContract = ''0xcccc'',
      param_tokenId = 42, priceEth = ''1.5'', durationHours = 24,
      conversationId = [0x63, 0x68, 0x61, 0x74, 0x2D, 0x30, 0x31],
      param_ipfsMetadata = None\<rparr>"

section \<open>Facts about lower-casing\<close>

lemma of_char_lt_256: "(of_char c :: nat) < 256"
proof -
  have "of_char c = (of_char c :: nat) mod 256"
    by (metis of_char_of char_of_char)
  then show ?thesis
    by (metis mod_less_divisor zero_less_numeral)
qed

lemma toLowerChar_swapCase: "toLowerChar (swapCase c) = toLowerChar c"
proof -
  let ?n = "of_char c :: nat"
  consider (up) "65 \<le> ?n \<and> ?n \<le> 90" | (lo) "97 \<le> ?n \<and> ?n \<le> 122"
    | (other) "\<not> (65 \<le> ?n \<and> ?n \<le> 90) \<and> \<not> (97 \<le> ?n \<and> ?n \<le> 122)"
    by blast
  then show ?thesis
  proof cases
    case up
    then have "(of_char (char_of (?n + 32)) :: nat) = ?n + 32"
      by simp
    with up show ?thesis
      by (simp add: toLowerChar_def swapCase_def Let_def)
  next
    case lo
    then have "?n - 32 < 256"
      by arith
    then have a: "(of_char (char_of (?n - 32)) :: nat) = ?n - 32"
      by simp
    from lo have b: "?n - 32 + 32 = ?n" and c: "65 \<le> ?n - 32 \<and> ?n - 32 \<le> 90"
      by arith+
    have "toLowerChar (char_of (?n - 32)) = char_of (?n - 32 + 32)"
      unfolding toLowerChar_def Let_def a using c by (simp only: if_True simp_thms)
    then have "toLowerChar (char_of (?n - 32)) = c"
      by (simp only: b char_of_char)
    moreover from lo have "swapCase c = char_of (?n - 32)" and "toLowerChar c = c"
      by (simp_all add: toLowerChar_def swapCase_def Let_def)
    ultimately show ?thesis
      by simp
  next
    case other
    then have "swapCase c = c"
      unfolding swapCase_def Let_def by auto
    then show ?thesis
      by simp
  qed
qed

lemma sameUpToCase_toLowerCase:
  "sameUpToCase a b \<Longrightarrow> toLowerCase a = toLowerCase b"
  unfolding sameUpToCase_def toLowerCase_def
  by (induction a b rule: list_all2_induct) (auto simp: toLowerChar_swapCase)

section \<open>Permission predicates against the transition table\<close>

text \<open>
  C1 (amended). For every escrow, clock value and user address, each of the five
  permission predicates is true exactly when the action is lawful, by the transition
  table, for a role the user holds: fund for the buyer in CREATED when not expired;
  deposit NFT for the seller in CREATED or FUNDED when not expired; complete for either
  party in ACTIVE; cancel for either party outside COMPLETED, CANCELLED and DISPUTED;
  raise dispute for either party in FUNDED, NFT_DEPOSITED or ACTIVE when not expired. The
  cancel-expired button is shown to either party exactly when the escrow's deadline has
  passed and the state is neither COMPLETED nor CANCELLED; a DISPUTED escrow is included,
  and the dispute's own deadline is not read.
\<close>

theorem permission_predicates_lawful:
  "canUserFundEscrow now e u = permitted Fund now e u \<and>
   canUserDepositNFT now e u = permitted DepositNFT now e u \<and>
   canUserCompleteEscrow e u = permitted Complete now e u \<and>
   canUserCancelEscrow e u = permitted Cancel now e u \<and>
   canUserRaiseDispute now e u = permitted RaiseDispute now e u \<and>
   showCancelExpired now e u =
     (isParty e u \<and> client_cancelExpired (state e) (isEscrowExpired now e))"
proof -
  have 1: "canUserFundEscrow now e u = permitted Fund now e u"
    by (auto simp: canUserFundEscrow_def permitted_def)
  have 2: "canUserDepositNFT now e u = permitted DepositNFT now e u"
    by (auto simp: canUserDepositNFT_def permitted_def)
  have 3: "canUserCompleteEscrow e u = permitted Complete now e u"
    by (auto simp: canUserCompleteEscrow_def permitted_def)
  have 4: "canUserCancelEscrow e u = permitted Cancel now e u"
    by (auto simp: canUserCancelEscrow_def permitted_def Let_def)
  have 5: "canUserRaiseDispute now e u = permitted RaiseDispute now e u"
    by (auto simp: canUserRaiseDispute_def permitted_def)
  have 6: "showCancelExpired now e u =
     (isParty e u \<and> client_cancelExpired (state e) (isEscrowExpired now e))"
    by (auto simp: showCancelExpired_def userRole_def isParty_def client_cancelExpired_def
        Let_def)
  from 1 2 3 4 5 6 show ?thesis
    by blast
qed

text \<open>
  The table at work: five seconds after the epoch the buyer of a CREATED escrow with
  deadline 100 may fund and cancel, and nothing else.
\<close>

theorem permission_predicates_lawful_witness:
  "canUserFundEscrow 5000 (sampleEscrow CREATED) ''0xBBBB'' \<and>
   \<not> canUserDepositNFT 5000 (sampleEscrow CREATED) ''0xBBBB'' \<and>
   \<not> canUserCompleteEscrow (sampleEscrow CREATED) ''0xBBBB'' \<and>
   canUserCancelEscrow (sampleEscrow CREATED) ''0xBBBB'' \<and>
   \<not> canUserRaiseDispute 5000 (sampleEscrow CREATED) ''0xBBBB'' \<and>
   \<not> showCancelExpired 5000 (sampleEscrow CREATED) ''0xBBBB''"
proof -
  have 1: "permitted Fund 5000 (sampleEscrow CREATED) ''0xBBBB''"
    by code_simp
  have 2: "\<not> permitted DepositNFT 5000 (sampleEscrow CREATED) ''0xBBBB''"
    by code_simp
  have 3: "\<not> permitted Complete 5000 (sampleEscrow CREATED) ''0xBBBB''"
    by code_simp
  have 4: "permitted Cancel 5000 (sampleEscrow CREATED) ''0xBBBB''"
    by code_simp
  have 5: "\<not> permitted RaiseDispute 5000 (sampleEscrow CREATED) ''0xBBBB''"
    by code_simp
  have 6: "\<not> client_cancelExpired (state (sampleEscrow CREATED))
             (isEscrowExpired 5000 (sampleEscrow CREATED))"
    by code_simp
  from permission_predicates_lawful [of 5000 "sampleEscrow CREATED" "''0xBBBB''"]
    1 2 3 4 5 6
  show ?thesis
    by simp
qed

text \<open>
  The rule of the specification for cancel-expired fails on the client: 500 seconds after
  the epoch, a DISPUTED escrow with deadline 100 and dispute deadline 1000 offers the
  button to its buyer, although the dispute's own deadline has not passed.
\<close>

theorem cancelExpired_counterexample:
  "isParty (sampleEscrow DISPUTED) ''0xBBBB'' \<and>
   showCancelExpired 500000 (sampleEscrow DISPUTED) ''0xBBBB'' \<and>
   \<not> spec_cancelExpired (state (sampleEscrow DISPUTED))
       (isEscrowExpired 500000 (sampleEscrow DISPUTED))
       (disputeExpired 500000 (sampleEscrow DISPUTED))"
  by code_simp

section \<open>Totality of the next action\<close>

lemma getNextAction_cases:
  "getNextAction now e u =
     (if state e = COMPLETED then ''Escrow completed successfully''
      else if state e = CANCELLED then ''Escrow was cancelled''
      else if state e = DISPUTED then
        (if isEscrowExpired now e then ''Dispute expired - can be auto-resolved''
         else ''Escrow is under dispute - awaiting resolution'')
      else if isEscrowExpired now e then ''Escrow expired - funds can be refunded''
      else if state e = CREATED then
        (if hasRole e u Buyer then ''Deposit payment to continue''
         else if hasRole e u Seller then ''Waiting for buyer to deposit payment''
         else ''No action required'')
      else if state e = FUNDED then
        (if hasRole e u Seller then ''Deposit your NFT to activate escrow''
         else ''Waiting for seller to deposit NFT'')
      else if state e = NFT_DEPOSITED then
        (if hasRole e u Buyer then ''Deposit payment to activate escrow''
         else ''Waiting for buyer to deposit payment'')
      else
        (if hasRole e u Buyer then ''Complete escrow to receive NFT''
         else ''Waiting for buyer to complete or auto-complete''))"
  by (cases "state e") (simp_all add: getNextAction_def Let_def)

text \<open>
  C2. \<open>getNextAction\<close> returns a non-empty string for every escrow, clock value and user
  address. The string is a function of the state, the expiry flag and the two role flags
  alone: two calls that agree on these return the same string. COMPLETED, CANCELLED and
  DISPUTED are answered before the general expiry message, whatever the expiry flag and
  the role; in every other state an expired escrow is answered by the expiry message
  before any guidance by role. The default "No action required" is what is left: it is
  returned exactly for a CREATED, unexpired escrow and a user who is neither buyer nor
  seller.
\<close>

theorem getNextAction_total:
  "getNextAction now e u \<noteq> [] \<and>
   (state e' = state e \<and> isEscrowExpired now' e' = isEscrowExpired now e \<and>
    hasRole e' u' Buyer = hasRole e u Buyer \<and> hasRole e' u' Seller = hasRole e u Seller
      \<longrightarrow> getNextAction now' e' u' = getNextAction now e u) \<and>
   (state e = COMPLETED \<longrightarrow> getNextAction now e u = ''Escrow completed successfully'') \<and>
   (state e = CANCELLED \<longrightarrow> getNextAction now e u = ''Escrow was cancelled'') \<and>
   (state e = DISPUTED \<longrightarrow>
      getNextAction now e u =
        (if isEscrowExpired now e then ''Dispute expired - can be auto-resolved''
         else ''Escrow is under dispute - awaiting resolution'')) \<and>
   (state e \<noteq> COMPLETED \<and> state e \<noteq> CANCELLED \<and> state e \<noteq> DISPUTED \<and>
    isEscrowExpired now e
      \<longrightarrow> getNextAction now e u = ''Escrow expired - funds can be refunded'') \<and>
   (getNextAction now e u = ''No action required'' \<longleftrightarrow>
      state e = CREATED \<and> \<not> isEscrowExpired now e \<and>
      \<not> hasRole e u Buyer \<and> \<not> hasRole e u Seller)"
proof -
  have nonempty: "getNextAction now e u \<noteq> []"
    by (simp add: getNextAction_cases)
  have pure: "state e' = state e \<and> isEscrowExpired now' e' = isEscrowExpired now e \<and>
    hasRole e' u' Buyer = hasRole e u Buyer \<and> hasRole e' u' Seller = hasRole e u Seller
      \<longrightarrow> getNextAction now' e' u' = getNextAction now e u"
    by (simp add: getNextAction_cases [of now' e' u'] getNextAction_cases [of now e u])
  have default: "getNextAction now e u = ''No action required'' \<longleftrightarrow>
      state e = CREATED \<and> \<not> isEscrowExpired now e \<and>
      \<not> hasRole e u Buyer \<and> \<not> hasRole e u Seller"
    by (cases "state e") (simp_all add: getNextAction_cases)
  from nonempty pure default show ?thesis
    by (simp add: getNextAction_cases)
qed

text \<open>
  At concrete inputs: a stranger to a CREATED, unexpired escrow gets the default, and so
  does another stranger to an escrow in the same state with another deadline, read at
  another time; an expired FUNDED escrow gives the expiry message.
\<close>

theorem getNextAction_total_witness:
  "state ((sampleEscrow CREATED)\<lparr>deadline := 50\<rparr>) = state (sampleEscrow CREATED) \<and>
   isEscrowExpired 1000 ((sampleEscrow CREATED)\<lparr>deadline := 50\<rparr>) =
     isEscrowExpired 5000 (sampleEscrow CREATED) \<and>
   \<not> hasRole (sampleEscrow CREATED) ''0xdead'' Buyer \<and>
   \<not> hasRole (sampleEscrow CREATED) ''0xdead'' Seller \<and>
   getNextAction 5000 (sampleEscrow CREATED) ''0xdead'' = ''No action required'' \<and>
   getNextAction 1000 ((sampleEscrow CREATED)\<lparr>deadline := 50\<rparr>) ''0xBEEF'' =
     ''No action required'' \<and>
   isEscrowExpired 500000 (sampleEscrow FUNDED) \<and>
   getNextAction 500000 (sampleEscrow FUNDED) ''0xdead'' =
     ''Escrow expired - funds can be refunded''"
proof -
  let ?e = "sampleEscrow CREATED"
  let ?e' = "(sampleEscrow CREATED)\<lparr>deadline := 50\<rparr>"
  have s: "state ?e' = state ?e" "state ?e = CREATED"
    by (simp_all add: sampleEscrow_def)
  have x: "isEscrowExpired 1000 ?e' = isEscrowExpired 5000 ?e"
    "\<not> isEscrowExpired 5000 ?e"
    by (simp_all add: sampleEscrow_def isEscrowExpired_def)
  have r: "\<not> hasRole ?e ''0xdead'' Buyer" "\<not> hasRole ?e ''0xdead'' Seller"
    "hasRole ?e' ''0xBEEF'' Buyer = hasRole ?e ''0xdead'' Buyer"
    "hasRole ?e' ''0xBEEF'' Seller = hasRole ?e ''0xdead'' Seller"
    by code_simp+
  have f: "state (sampleEscrow FUNDED) = FUNDED" "isEscrowExpired 500000 (sampleEscrow FUNDED)"
    by (simp_all add: sampleEscrow_def isEscrowExpired_def)
  from getNextAction_total [of 5000 ?e "''0xdead''" ?e' 1000 "''0xBEEF''"] s x r
  have "getNextAction 5000 ?e ''0xdead'' = ''No action required''"
    "getNextAction 1000 ?e' ''0xBEEF'' = ''No action required''"
    by simp_all
  moreover from getNextAction_total [of 500000 "sampleEscrow FUNDED" "''0xdead''"] f
  have "getNextAction 500000 (sampleEscrow FUNDED) ''0xdead'' =
     ''Escrow expired - funds can be refunded''"
    by simp
  ultimately show ?thesis
    using s x r f by simp
qed

section \<open>Case-insensitive comparison of addresses\<close>

text \<open>
  C10. Changing the letter case of the user address, of the escrow's buyer field or of its
  seller field changes the result of none of \<open>canUserFundEscrow\<close>, \<open>canUserDepositNFT\<close>,
  \<open>canUserCompleteEscrow\<close>, \<open>canUserCancelEscrow\<close>, \<open>canUserRaiseDispute\<close> and
  \<open>getNextAction\<close>.
\<close>

theorem permission_case_insensitive:
  assumes u: "sameUpToCase u u'"
    and b: "sameUpToCase (buyer e) b'"
    and s: "sameUpToCase (seller e) s'"
  shows "canUserFundEscrow now (e\<lparr>buyer := b', seller := s'\<rparr>) u' =
           canUserFundEscrow now e u \<and>
         canUserDepositNFT now (e\<lparr>buyer := b', seller := s'\<rparr>) u' =
           canUserDepositNFT now e u \<and>
         canUserCompleteEscrow (e\<lparr>buyer := b', seller := s'\<rparr>) u' =
           canUserCompleteEscrow e u \<and>
         canUserCancelEscrow (e\<lparr>buyer := b', seller := s'\<rparr>) u' =
           canUserCancelEscrow e u \<and>
         canUserRaiseDispute now (e\<lparr>buyer := b', seller := s'\<rparr>) u' =
           canUserRaiseDispute now e u \<and>
         getNextAction now (e\<lparr>buyer := b', seller := s'\<rparr>) u' = getNextAction now e u"
proof -
  from u have 1: "toLowerCase u' = toLowerCase u"
    by (simp add: sameUpToCase_toLowerCase)
  from b have 2: "toLowerCase b' = toLowerCase (buyer e)"
    by (simp add: sameUpToCase_toLowerCase)
  from s have 3: "toLowerCase s' = toLowerCase (seller e)"
    by (simp add: sameUpToCase_toLowerCase)
  show ?thesis
    by (simp add: canUserFundEscrow_def canUserDepositNFT_def canUserCompleteEscrow_def
        canUserCancelEscrow_def canUserRaiseDispute_def getNextAction_def isEscrowExpired_def
        Let_def 1 2 3 split: EscrowState.split)
qed

text \<open>
  The buyer \<open>0xbbBB\<close> of the sample escrow, written \<open>0xBBbb\<close> by the wallet and \<open>0xBBBB\<close> in
  the record, may still fund it and is still told to deposit the payment.
\<close>

theorem permission_case_insensitive_witness:
  "sameUpToCase ''0xbbBB'' ''0xBBbb'' \<and>
   sameUpToCase (buyer (sampleEscrow CREATED)) ''0xBBBB'' \<and>
   sameUpToCase (seller (sampleEscrow CREATED)) ''0xaaaa'' \<and>
   canUserFundEscrow 5000 (sampleEscrow CREATED) ''0xbbBB'' \<and>
   canUserFundEscrow 5000
     ((sampleEscrow CREATED)\<lparr>buyer := ''0xBBBB'', seller := ''0xaaaa''\<rparr>) ''0xBBbb'' \<and>
   getNextAction 5000
     ((sampleEscrow CREATED)\<lparr>buyer := ''0xBBBB'', seller := ''0xaaaa''\<rparr>) ''0xBBbb'' =
     ''Deposit payment to continue''"
proof -
  have u: "sameUpToCase ''0xbbBB'' ''0xBBbb''"
    by code_simp
  have b: "sameUpToCase (buyer (sampleEscrow CREATED)) ''0xBBBB''"
    by code_simp
  have s: "sameUpToCase (seller (sampleEscrow CREATED)) ''0xaaaa''"
    by code_simp
  have f: "canUserFundEscrow 5000 (sampleEscrow CREATED) ''0xbbBB''"
    by code_simp
  have g: "getNextAction 5000 (sampleEscrow CREATED) ''0xbbBB'' =
      ''Deposit payment to continue''"
    by code_simp
  from permission_case_insensitive [OF u b s, of 5000] u b s f g show ?thesis
    by simp
qed

section \<open>The encoding of conversation identifiers\<close>

text \<open>Code units as integers, and the surrogate pair of a scalar value.\<close>

lemma uint_range: "0 \<le> uint (u :: codeUnit) \<and> uint u < 65536"
  using uint_lt2p [of u] by simp

lemma high_int: "isHighSurrogate u \<longleftrightarrow> 0xD800 \<le> uint u \<and> uint u \<le> 0xDBFF"
  by (simp add: isHighSurrogate_def word_le_def)

lemma low_int: "isLowSurrogate u \<longleftrightarrow> 0xDC00 \<le> uint u \<and> uint u \<le> 0xDFFF"
  by (simp add: isLowSurrogate_def word_le_def)

lemma divmod_1024:
  assumes "0 \<le> l" "l < 1024"
  shows "(h * 1024 + l) div 1024 = (h :: int) \<and> (h * 1024 + l) mod 1024 = l"
proof -
  have "(l + h * 1024) div 1024 = h + l div 1024"
    by (rule div_mult_self1) simp
  moreover have "(l + h * 1024) mod 1024 = l mod 1024"
    by (rule mod_mult_self1)
  moreover from assms have "l div 1024 = 0" "l mod 1024 = l"
    by (simp_all add: div_pos_pos_trivial mod_pos_pos_trivial)
  ultimately show ?thesis
    by (simp add: add.commute)
qed

lemma pair_back:
  assumes "isHighSurrogate u" "isLowSurrogate v"
  shows "fromScalarValues ((0x10000 + (uint u - 0xD800) * 0x400 + (uint v - 0xDC00)) # cs) =
     u # v # fromScalarValues cs"
proof -
  define h where "h = uint u - 0xD800"
  define l where "l = uint v - 0xDC00"
  from assms have h: "0 \<le> h" and l: "0 \<le> l" "l < 1024"
    by (auto simp: high_int low_int h_def l_def)
  have dm: "(h * 1024 + l) div 1024 = h" "(h * 1024 + l) mod 1024 = l"
    using divmod_1024 [OF l] by simp_all
  have big: "\<not> 0x10000 + h * 0x400 + l < 0x10000"
    using h l by simp
  have c: "0x10000 + h * 0x400 + l - 0x10000 = h * 1024 + l"
    by simp
  have u: "word_of_int (0xD800 + h) = u" and v: "word_of_int (0xDC00 + l) = v"
    by (simp_all add: h_def l_def)
  have "fromScalarValues ((0x10000 + h * 0x400 + l) # cs) = u # v # fromScalarValues cs"
    by (simp only: fromScalarValues.simps big if_False c dm u v)
  then show ?thesis
    by (simp only: h_def l_def)
qed

lemma fromScalarValues_toScalarValues:
  "wellFormed s \<Longrightarrow> fromScalarValues (toScalarValues s) = s"
proof (induction s rule: toScalarValues.induct)
  case 1
  then show ?case by simp
next
  case (2 u)
  then show ?case using uint_range [of u] by simp
next
  case (3 u v rest)
  show ?case
  proof (cases "isHighSurrogate u \<and> isLowSurrogate v")
    case True
    with "3.prems" have "wellFormed rest"
      by simp
    with True "3.IH"(1) have ih: "fromScalarValues (toScalarValues rest) = rest"
      by simp
    from True have "toScalarValues (u # v # rest) =
        (0x10000 + (uint u - 0xD800) * 0x400 + (uint v - 0xDC00)) # toScalarValues rest"
      by (simp only: toScalarValues.simps if_True simp_thms)
    with True ih show ?thesis
      by (simp only: pair_back)
  next
    case False
    with 3 show ?thesis
      using uint_range [of u] by (simp split: if_splits)
  qed
qed

lemma div64_upper: "(c::int) < 2048 \<Longrightarrow> c div 64 < 32"
  by simp

lemma div4096_upper: "(c::int) < 65536 \<Longrightarrow> c div 4096 < 16"
  by simp

lemma div262144_lower: "65536 \<le> (c::int) \<Longrightarrow> 0 \<le> c div 262144"
  by simp

lemma div64_lower: "128 \<le> (c::int) \<Longrightarrow> 0 \<le> c div 64"
  by simp

lemma div4096_lower: "2048 \<le> (c::int) \<Longrightarrow> 0 \<le> c div 4096"
  by simp

lemma two_bytes_inj: "(c::int) div 64 = d div 64 \<Longrightarrow> c mod 64 = d mod 64 \<Longrightarrow> c = d"
  by (metis mult_div_mod_eq)

lemma three_bytes_inj:
  "(c::int) div 4096 = d div 4096 \<Longrightarrow> (c div 64) mod 64 = (d div 64) mod 64 \<Longrightarrow>
     c mod 64 = d mod 64 \<Longrightarrow> c = d"
proof -
  assume a: "c div 4096 = d div 4096" "(c div 64) mod 64 = (d div 64) mod 64"
    "c mod 64 = d mod 64"
  have "c div 64 div 64 = c div 4096" "d div 64 div 64 = d div 4096"
    by (simp_all add: zdiv_zmult2_eq [symmetric])
  with a have "c div 64 = d div 64"
    by (metis mult_div_mod_eq)
  with a show ?thesis
    by (metis mult_div_mod_eq)
qed

lemma four_bytes_inj:
  "(c::int) div 262144 = d div 262144 \<Longrightarrow> (c div 4096) mod 64 = (d div 4096) mod 64 \<Longrightarrow>
     (c div 64) mod 64 = (d div 64) mod 64 \<Longrightarrow> c mod 64 = d mod 64 \<Longrightarrow> c = d"
proof -
  assume a: "c div 262144 = d div 262144" "(c div 4096) mod 64 = (d div 4096) mod 64"
    "(c div 64) mod 64 = (d div 64) mod 64" "c mod 64 = d mod 64"
  have "c div 4096 div 64 = c div 262144" "d div 4096 div 64 = d div 262144"
    by (simp_all add: zdiv_zmult2_eq [symmetric])
  with a have "c div 4096 = d div 4096"
    by (metis mult_div_mod_eq)
  with a show ?thesis
    by (blast intro: three_bytes_inj)
qed

lemma utf8_nonempty: "utf8 c \<noteq> []"
  by (simp add: utf8_def)

text \<open>The first byte tells the length of the sequence.\<close>

lemma utf8_lead:
  "(c < 0x80 \<longrightarrow> hd (utf8 c) < 0x80) \<and>
   (0x80 \<le> c \<and> c < 0x800 \<longrightarrow> 0xC0 \<le> hd (utf8 c) \<and> hd (utf8 c) < 0xE0) \<and>
   (0x800 \<le> c \<and> c < 0x10000 \<longrightarrow> 0xE0 \<le> hd (utf8 c) \<and> hd (utf8 c) < 0xF0) \<and>
   (0x10000 \<le> c \<longrightarrow> 0xF0 \<le> hd (utf8 c))"
  using div64_upper [of c] div4096_upper [of c] div262144_lower [of c] div64_lower [of c] div4096_lower [of c] by (auto simp: utf8_def)

lemma utf8_prefix_free:
  assumes eq: "utf8 c @ r = utf8 d @ r'"
  shows "c = d \<and> r = r'"
proof -
  from eq utf8_nonempty [of c] utf8_nonempty [of d] have hd: "hd (utf8 c) = hd (utf8 d)"
    by (metis hd_append2)
  consider (1) "c < 0x80" | (2) "0x80 \<le> c \<and> c < 0x800" | (3) "0x800 \<le> c \<and> c < 0x10000"
    | (4) "0x10000 \<le> c"
    by linarith
  then show ?thesis
  proof cases
    case 1
    with hd utf8_lead [of c] utf8_lead [of d] have "d < 0x80"
      by linarith
    with 1 eq show ?thesis
      by (simp add: utf8_def)
  next
    case 2
    with hd utf8_lead [of c] utf8_lead [of d] have "0x80 \<le> d \<and> d < 0x800"
      by linarith
    with 2 eq have "c div 64 = d div 64" "c mod 64 = d mod 64" "r = r'"
      by (simp_all add: utf8_def)
    then show ?thesis
      by (blast intro: two_bytes_inj)
  next
    case 3
    with hd utf8_lead [of c] utf8_lead [of d] have "0x800 \<le> d \<and> d < 0x10000"
      by linarith
    with 3 eq have "c div 4096 = d div 4096" "(c div 64) mod 64 = (d div 64) mod 64"
      "c mod 64 = d mod 64" "r = r'"
      by (simp_all add: utf8_def)
    then show ?thesis
      by (blast intro: three_bytes_inj)
  next
    case 4
    with hd utf8_lead [of c] utf8_lead [of d] have "0x10000 \<le> d"
      by linarith
    with 4 eq have "c div 262144 = d div 262144" "(c div 4096) mod 64 = (d div 4096) mod 64"
      "(c div 64) mod 64 = (d div 64) mod 64" "c mod 64 = d mod 64" "r = r'"
      by (simp_all add: utf8_def)
    then show ?thesis
      by (blast intro: four_bytes_inj)
  qed
qed

lemma concat_utf8_inj:
  "concat (map utf8 cs) = concat (map utf8 ds) \<Longrightarrow> cs = ds"
proof (induction cs arbitrary: ds)
  case Nil
  then show ?case
    by (cases ds) (simp_all add: utf8_nonempty)
next
  case (Cons c cs)
  show ?case
  proof (cases ds)
    case Nil
    with Cons.prems show ?thesis
      by (simp add: utf8_nonempty)
  next
    case (Cons d ds')
    with Cons.prems have "utf8 c @ concat (map utf8 cs) = utf8 d @ concat (map utf8 ds')"
      by simp
    then have "c = d \<and> concat (map utf8 cs) = concat (map utf8 ds')"
      by (rule utf8_prefix_free)
    with Cons.IH Cons show ?thesis
      by simp
  qed
qed

lemma encode_inj:
  assumes "wellFormed a" "wellFormed b" "encode a = encode b"
  shows "a = b"
proof -
  from assms(3) have "toScalarValues a = toScalarValues b"
    unfolding encode_def by (rule concat_utf8_inj)
  then have "fromScalarValues (toScalarValues a) = fromScalarValues (toScalarValues b)"
    by simp
  with assms(1,2) show ?thesis
    by (simp add: fromScalarValues_toScalarValues)
qed

lemma toScalarValues_range:
  "c \<in> set (toScalarValues s) \<Longrightarrow> 0 \<le> c \<and> c < 0x110000"
proof (induction s arbitrary: c rule: toScalarValues.induct)
  case 1
  then show ?case by simp
next
  case (2 u)
  then show ?case
    using uint_range [of u] by (auto split: if_splits)
next
  case (3 u v rest)
  have pair: "0 \<le> 0x10000 + (uint u - 0xD800) * 0x400 + (uint v - 0xDC00) \<and>
      0x10000 + (uint u - 0xD800) * 0x400 + (uint v - 0xDC00) < 0x110000"
    if "isHighSurrogate u" "isLowSurrogate v"
    using that by (simp add: high_int low_int)
  from "3.prems" "3.IH" pair uint_range [of u] show ?case
    by (auto split: if_splits)
qed

lemma utf8_bytes:
  assumes "0 \<le> c" "c < 0x110000" "b \<in> set (utf8 c)"
  shows "0 \<le> b \<and> b < 256"
proof -
  have m: "0 \<le> x mod 64 \<and> x mod 64 < 64" for x :: int
    by simp
  from assms(1,2) have d: "0 \<le> c div 64" "0 \<le> c div 4096" "0 \<le> c div 262144"
    "c div 262144 < 5"
    by simp_all
  from assms(3) div64_upper [of c] div4096_upper [of c] d m [of c] m [of "c div 64"] m [of "c div 4096"] assms(1)
  show ?thesis
    by (auto simp: utf8_def split: if_splits)
qed

lemma encode_bytes: "b \<in> set (encode s) \<Longrightarrow> 0 \<le> b \<and> b < 256"
  by (auto simp: encode_def dest: toScalarValues_range utf8_bytes)

lemma hexVal_hexDigit: "0 \<le> d \<Longrightarrow> d < 16 \<Longrightarrow> hexVal (hexDigit d) = d"
proof -
  assume "0 \<le> d" "d < 16"
  then have "d = 0 \<or> d = 1 \<or> d = 2 \<or> d = 3 \<or> d = 4 \<or> d = 5 \<or> d = 6 \<or> d = 7 \<or>
      d = 8 \<or> d = 9 \<or> d = 10 \<or> d = 11 \<or> d = 12 \<or> d = 13 \<or> d = 14 \<or> d = 15"
    by arith
  then show ?thesis
    by (auto simp: hexVal_def hexDigit_def)
qed

lemma hex_of_byte:
  assumes "0 \<le> b" "b < 256"
  shows "padStart 2 CHR ''0'' (toString16 b) = [hexDigit (b div 16), hexDigit (b mod 16)]"
proof (cases "b < 16")
  case True
  with assms show ?thesis
    by (simp add: toString16.simps [of b] padStart_def hexDigit_def)
next
  case False
  with assms have "b div 16 < 16"
    by simp
  with False show ?thesis
    by (simp add: toString16.simps [of b] toString16.simps [of "b div 16"] padStart_def)
qed

lemma fromHex_hex:
  "\<forall>b \<in> set bs. 0 \<le> b \<and> b < 256 \<Longrightarrow>
   fromHex (concat (map (\<lambda>b. padStart 2 CHR ''0'' (toString16 b)) bs)) = bs"
proof (induction bs)
  case Nil
  then show ?case by simp
next
  case (Cons b bs)
  then have b: "0 \<le> b" "b < 256" by simp_all
  then have "0 \<le> b div 16" "b div 16 < 16" "0 \<le> b mod 16" "b mod 16 < 16" by simp_all
  with Cons b show ?case
    by (simp add: hex_of_byte hexVal_hexDigit)
qed

lemma dropWhile_zero_replicate:
  "dropWhile (\<lambda>b. b = 0) (replicate n (0::int) @ zs) = dropWhile (\<lambda>b. b = 0) zs"
  by (induction n) simp_all

lemma stripTrailingZeros_pad:
  "noTrailingZero xs \<Longrightarrow> stripTrailingZeros (xs @ replicate n 0) = xs"
  by (cases xs rule: rev_cases)
    (simp_all add: stripTrailingZeros_def noTrailingZero_def dropWhile_zero_replicate)

lemma conversationIdToBytes32_short:
  assumes "length (encode s) \<le> 32"
  shows "conversationIdToBytes32 s =
     ''0x'' @ concat (map (\<lambda>b. padStart 2 CHR ''0'' (toString16 b))
       (encode s @ replicate (32 - length (encode s)) 0))"
  using assms by (simp add: conversationIdToBytes32_def Let_def min_def)

lemma conversationIdToBytes32_long:
  assumes "32 \<le> length (encode s)"
  shows "conversationIdToBytes32 s =
     ''0x'' @ concat (map (\<lambda>b. padStart 2 CHR ''0'' (toString16 b)) (take 32 (encode s)))"
  using assms by (simp add: conversationIdToBytes32_def Let_def min_def)

lemma conversationId_bytes_roundtrip:
  assumes len: "length (encode s) \<le> 32" and nz: "noTrailingZero (encode s)"
  shows "bytes32ToBytes (conversationIdToBytes32 s) = encode s"
proof -
  let ?bs = "encode s @ replicate (32 - length (encode s)) 0"
  have "\<forall>b \<in> set ?bs. 0 \<le> b \<and> b < 256"
    by (auto dest: encode_bytes)
  then have "fromHex (concat (map (\<lambda>b. padStart 2 CHR ''0'' (toString16 b)) ?bs)) = ?bs"
    by (rule fromHex_hex)
  moreover have "drop 2 (conversationIdToBytes32 s) =
      concat (map (\<lambda>b. padStart 2 CHR ''0'' (toString16 b)) ?bs)"
    by (simp only: conversationIdToBytes32_short [OF len] drop_Suc_Cons drop0 append_Cons
        append_Nil numeral_2_eq_2)
  ultimately have "fromHex (drop 2 (conversationIdToBytes32 s)) = ?bs"
    by simp
  moreover from nz have "stripTrailingZeros ?bs = encode s"
    by (rule stripTrailingZeros_pad)
  ultimately show ?thesis
    by (simp add: bytes32ToBytes_def)
qed

text \<open>
  C3 (amended). \<open>conversationIdToBytes32\<close> is a function of the identifier alone. From the
  key of an identifier whose UTF-8 encoding is at most 32 bytes long and does not end in a
  zero byte, the bytes of the encoding are read back. Two such identifiers that are well
  formed, with no surrogate outside a pair, and have the same key are equal. Two
  identifiers whose encodings are longer than 32 bytes and share their first 32 bytes
  have the same key.
\<close>

theorem conversationIdToBytes32_roundtrip_collision:
  "(length (encode a) \<le> 32 \<and> noTrailingZero (encode a) \<longrightarrow>
      bytes32ToBytes (conversationIdToBytes32 a) = encode a) \<and>
   (wellFormed a \<and> length (encode a) \<le> 32 \<and> noTrailingZero (encode a) \<and>
    wellFormed b \<and> length (encode b) \<le> 32 \<and> noTrailingZero (encode b) \<and>
    conversationIdToBytes32 a = conversationIdToBytes32 b \<longrightarrow> a = b) \<and>
   (32 < length (encode a) \<and> 32 < length (encode b) \<and>
    take 32 (encode a) = take 32 (encode b) \<longrightarrow>
      conversationIdToBytes32 a = conversationIdToBytes32 b)"
proof -
  have "a = b" if "wellFormed a" "length (encode a) \<le> 32" "noTrailingZero (encode a)"
    "wellFormed b" "length (encode b) \<le> 32" "noTrailingZero (encode b)"
    "conversationIdToBytes32 a = conversationIdToBytes32 b"
  proof -
    from that have "encode a = encode b"
      by (metis conversationId_bytes_roundtrip)
    with that(1,4) show ?thesis
      by (rule encode_inj)
  qed
  moreover have "conversationIdToBytes32 a = conversationIdToBytes32 b"
    if "32 < length (encode a)" "32 < length (encode b)" "take 32 (encode a) = take 32 (encode b)"
    using that by (simp add: conversationIdToBytes32_long)
  ultimately show ?thesis
    by (auto simp: conversationId_bytes_roundtrip)
qed

text \<open>
  The identifier \<open>c\<close>, \<open>e\<close> with an acute accent, the euro sign and an emoji, which is a
  surrogate pair, is encoded on ten bytes, which are read back from its key; the
  identifiers \<open>a\<close> and \<open>b\<close> have two keys; two identifiers of 33 bytes that differ in the
  last byte only have one key.
\<close>

theorem conversationIdToBytes32_roundtrip_collision_witness:
  "wellFormed [0x63, 0xE9, 0x20AC, 0xD83D, 0xDE00] \<and>
   length (encode [0x63, 0xE9, 0x20AC, 0xD83D, 0xDE00]) \<le> 32 \<and>
   noTrailingZero (encode [0x63, 0xE9, 0x20AC, 0xD83D, 0xDE00]) \<and>
   encode [0x63, 0xE9, 0x20AC, 0xD83D, 0xDE00] =
     [0x63, 0xC3, 0xA9, 0xE2, 0x82, 0xAC, 0xF0, 0x9F, 0x98, 0x80] \<and>
   bytes32ToBytes (conversationIdToBytes32 [0x63, 0xE9, 0x20AC, 0xD83D, 0xDE00]) =
     [0x63, 0xC3, 0xA9, 0xE2, 0x82, 0xAC, 0xF0, 0x9F, 0x98, 0x80] \<and>
   wellFormed [0x61] \<and> length (encode [0x61]) \<le> 32 \<and> noTrailingZero (encode [0x61]) \<and>
   wellFormed [0x62] \<and> length (encode [0x62]) \<le> 32 \<and> noTrailingZero (encode [0x62]) \<and>
   conversationIdToBytes32 [0x61] \<noteq> conversationIdToBytes32 [0x62] \<and>
   32 < length (encode (replicate 32 0x61 @ [0x58])) \<and>
   32 < length (encode (replicate 32 0x61 @ [0x59])) \<and>
   take 32 (encode (replicate 32 0x61 @ [0x58])) = take 32 (encode (replicate 32 0x61 @ [0x59])) \<and>
   replicate 32 0x61 @ [0x58] \<noteq> replicate 32 0x61 @ [0x59 :: codeUnit] \<and>
   conversationIdToBytes32 (replicate 32 0x61 @ [0x58]) =
     conversationIdToBytes32 (replicate 32 0x61 @ [0x59])"
proof -
  have s: "wellFormed [0x63, 0xE9, 0x20AC, 0xD83D, 0xDE00] \<and>
      length (encode [0x63, 0xE9, 0x20AC, 0xD83D, 0xDE00]) \<le> 32 \<and>
      noTrailingZero (encode [0x63, 0xE9, 0x20AC, 0xD83D, 0xDE00])"
    by code_simp
  have e: "encode [0x63, 0xE9, 0x20AC, 0xD83D, 0xDE00] =
      [0x63, 0xC3, 0xA9, 0xE2, 0x82, 0xAC, 0xF0, 0x9F, 0x98, 0x80]"
    by code_simp
  have ab: "wellFormed [0x61] \<and> length (encode [0x61]) \<le> 32 \<and> noTrailingZero (encode [0x61]) \<and>
      wellFormed [0x62] \<and> length (encode [0x62]) \<le> 32 \<and> noTrailingZero (encode [0x62])"
    by code_simp
  have ne: "[0x61] \<noteq> [0x62 :: codeUnit]"
    by simp
  have l: "32 < length (encode (replicate 32 0x61 @ [0x58])) \<and>
      32 < length (encode (replicate 32 0x61 @ [0x59])) \<and>
      take 32 (encode (replicate 32 0x61 @ [0x58])) =
        take 32 (encode (replicate 32 0x61 @ [0x59]))"
    by code_simp
  have nl: "replicate 32 0x61 @ [0x58] \<noteq> replicate 32 0x61 @ [0x59 :: codeUnit]"
    by simp
  from conversationIdToBytes32_roundtrip_collision
    [where a = "[0x63, 0xE9, 0x20AC, 0xD83D, 0xDE00]" and b = "[0x63, 0xE9, 0x20AC, 0xD83D, 0xDE00]"] s
  have 1: "bytes32ToBytes (conversationIdToBytes32 [0x63, 0xE9, 0x20AC, 0xD83D, 0xDE00]) =
      encode [0x63, 0xE9, 0x20AC, 0xD83D, 0xDE00]"
    by blast
  from conversationIdToBytes32_roundtrip_collision [where a = "[0x61]" and b = "[0x62]"] ab ne
  have 2: "conversationIdToBytes32 [0x61] \<noteq> conversationIdToBytes32 [0x62]"
    by blast
  from conversationIdToBytes32_roundtrip_collision
    [where a = "replicate 32 0x61 @ [0x58]" and b = "replicate 32 0x61 @ [0x59]"] l
  have 3: "conversationIdToBytes32 (replicate 32 0x61 @ [0x58]) =
      conversationIdToBytes32 (replicate 32 0x61 @ [0x59])"
    by blast
  from s e 1 ab 2 l nl 3 show ?thesis
    by (simp only: simp_thms)
qed

text \<open>
  Injectivity fails on identifiers of at most 32 bytes in two ways. The identifier \<open>a\<close>
  and the identifier \<open>a\<close> followed by the character NUL are distinct, one and two bytes
  long, and have the same key, the padding being made of zero bytes. The identifiers made
  of the lone surrogates \<open>0xD800\<close> and \<open>0xD801\<close> are distinct, both are encoded as the three
  bytes of \<open>0xFFFD\<close>, which do not end in a zero byte, and they have the same key.
\<close>

theorem conversationIdToBytes32_injective_counterexample:
  "length (encode [0x61]) \<le> 32 \<and> length (encode [0x61, 0x00]) \<le> 32 \<and>
   [0x61] \<noteq> [0x61, 0x00 :: codeUnit] \<and>
   conversationIdToBytes32 [0x61] = conversationIdToBytes32 [0x61, 0x00] \<and>
   encode [0xD800] = [0xEF, 0xBF, 0xBD] \<and> encode [0xD801] = [0xEF, 0xBF, 0xBD] \<and>
   noTrailingZero (encode [0xD800]) \<and> noTrailingZero (encode [0xD801]) \<and>
   [0xD800] \<noteq> [0xD801 :: codeUnit] \<and>
   conversationIdToBytes32 [0xD800] = conversationIdToBytes32 [0xD801]"
  by code_simp

section \<open>What getEscrow returns\<close>

text \<open>
  C5 (amended). \<open>getEscrow\<close> never throws. It returns \<open>null\<close> exactly when the read fails,
  whatever the failure: a revert, a missing record that makes the read revert, and a
  transport or network failure alike. When the read succeeds it returns the record read.
\<close>

theorem getEscrow_null_on_every_failure:
  "(\<forall>e. getEscrow readContract escrowId \<noteq> Inl e) \<and>
   (getEscrow readContract escrowId = Inr None \<longleftrightarrow> (\<exists>e. readContract escrowId = Inl e)) \<and>
   (\<forall>result. readContract escrowId = Inr result \<longrightarrow>
      getEscrow readContract escrowId = Inr (Some result))"
  by (cases "readContract escrowId") (simp_all add: getEscrow_def)

text \<open>A reverting read gives \<open>null\<close>, and a successful read gives the record.\<close>

theorem getEscrow_null_on_every_failure_witness:
  "getEscrow (\<lambda>i. Inl ContractRevert) 7 = Inr None \<and>
   getEscrow (\<lambda>i. Inr (sampleEscrow FUNDED)) 7 = Inr (Some (sampleEscrow FUNDED))"
proof -
  from getEscrow_null_on_every_failure [of "\<lambda>i. Inl ContractRevert" 7]
  have "getEscrow (\<lambda>i. Inl ContractRevert) 7 = Inr None"
    by simp
  moreover from getEscrow_null_on_every_failure [of "\<lambda>i. Inr (sampleEscrow FUNDED)" 7]
  have "getEscrow (\<lambda>i. Inr (sampleEscrow FUNDED)) 7 = Inr (Some (sampleEscrow FUNDED))"
    by simp
  ultimately show ?thesis
    by simp
qed

text \<open>
  A transport failure of the read does not reach the caller as an error: it is turned into
  \<open>null\<close> like every other failure.
\<close>

theorem getEscrow_transport_counterexample:
  "getEscrow (\<lambda>i. Inl TransportFailure) 7 = Inr None \<and>
   getEscrow (\<lambda>i. Inl TransportFailure) 7 \<noteq> Inl TransportFailure"
  by (simp add: getEscrow_def)

section \<open>Polling for the expected state\<close>

lemma waitLoop_step:
  "waitLoop g s m a r =
     (if a < m then (if observes g s r then (True, r + 1) else waitLoop g s m (a + 1) (r + 1))
      else (False, r))"
  by (subst waitLoop.simps) (simp add: observes_def split: sum.splits option.splits)

lemma waitLoop_spec:
  "(case waitLoop g s m a r of (ok, n) \<Rightarrow>
      r \<le> n \<and> n \<le> r + nat (m - a) \<and>
      (ok \<longleftrightarrow> (\<exists>k. r \<le> k \<and> k < r + nat (m - a) \<and> observes g s k)) \<and>
      (ok \<longrightarrow> r < n \<and> observes g s (n - 1) \<and>
         (\<forall>j. r \<le> j \<and> j < n - 1 \<longrightarrow> \<not> observes g s j)) \<and>
      (\<not> ok \<longrightarrow> n = r + nat (m - a)))"
proof (induction d \<equiv> "nat (m - a)" arbitrary: a r)
  case 0
  then have "\<not> a < m"
    by simp
  with 0 show ?case
    by (simp add: waitLoop_step [of g s m a r])
next
  case (Suc d)
  then have lt: "a < m" and rem: "nat (m - a) = Suc (nat (m - (a + 1)))"
    and d: "d = nat (m - (a + 1))"
    by simp_all
  show ?case
  proof (cases "observes g s r")
    case obs: True
    with lt have "waitLoop g s m a r = (True, r + 1)"
      by (simp add: waitLoop_step [of g s m a r])
    with obs rem show ?thesis
      by auto
  next
    case nobs: False
    with lt have eq: "waitLoop g s m a r = waitLoop g s m (a + 1) (r + 1)"
      by (simp add: waitLoop_step [of g s m a r])
    obtain ok n where res: "waitLoop g s m (a + 1) (r + 1) = (ok, n)"
      by (cases "waitLoop g s m (a + 1) (r + 1)")
    note ih = Suc.hyps(1) [OF d, of "r + 1", unfolded res prod.case]
    from ih have
      a1: "r + 1 \<le> n" and a2: "n \<le> r + 1 + nat (m - (a + 1))" and
      a3: "ok \<longleftrightarrow> (\<exists>k. r + 1 \<le> k \<and> k < r + 1 + nat (m - (a + 1)) \<and> observes g s k)" and
      a4: "ok \<longrightarrow> r + 1 < n \<and> observes g s (n - 1) \<and>
         (\<forall>j. r + 1 \<le> j \<and> j < n - 1 \<longrightarrow> \<not> observes g s j)" and
      a5: "\<not> ok \<longrightarrow> n = r + 1 + nat (m - (a + 1))"
      by blast+
    have b3: "ok \<longleftrightarrow> (\<exists>k. r \<le> k \<and> k < r + nat (m - a) \<and> observes g s k)"
    proof
      assume ok
      with a3 obtain k where "r + 1 \<le> k" "k < r + 1 + nat (m - (a + 1))" "observes g s k"
        by blast
      with rem show "\<exists>k. r \<le> k \<and> k < r + nat (m - a) \<and> observes g s k"
        by (intro exI [of _ k]) simp
    next
      assume "\<exists>k. r \<le> k \<and> k < r + nat (m - a) \<and> observes g s k"
      then obtain k where k: "r \<le> k" "k < r + nat (m - a)" "observes g s k"
        by blast
      with nobs have "k \<noteq> r"
        by blast
      with k rem have "r + 1 \<le> k \<and> k < r + 1 + nat (m - (a + 1)) \<and> observes g s k"
        by simp
      with a3 show ok
        by blast
    qed
    have b4: "ok \<longrightarrow> r < n \<and> observes g s (n - 1) \<and>
         (\<forall>j. r \<le> j \<and> j < n - 1 \<longrightarrow> \<not> observes g s j)"
    proof
      assume ok
      with a4 have c: "r + 1 < n" "observes g s (n - 1)"
        "\<forall>j. r + 1 \<le> j \<and> j < n - 1 \<longrightarrow> \<not> observes g s j"
        by simp_all
      have "\<not> observes g s j" if "r \<le> j \<and> j < n - 1" for j
      proof (cases "j = r")
        case True
        with nobs show ?thesis by simp
      next
        case False
        with that have "r + 1 \<le> j \<and> j < n - 1" by simp
        with c(3) show ?thesis by blast
      qed
      with c show "r < n \<and> observes g s (n - 1) \<and>
         (\<forall>j. r \<le> j \<and> j < n - 1 \<longrightarrow> \<not> observes g s j)"
        by simp
    qed
    from a1 a2 rem have b1: "r \<le> n" and b2: "n \<le> r + nat (m - a)"
      by simp_all
    from a5 rem have b5: "\<not> ok \<longrightarrow> n = r + nat (m - a)"
      by simp
    from b1 b2 b3 b4 b5 show ?thesis
      unfolding eq res prod.case by blast
  qed
qed

lemma waitForEscrowStateChange_spec:
  "(case waitForEscrowStateChange g s m of (ok, n) \<Rightarrow>
      n \<le> nat m \<and>
      (ok \<longleftrightarrow> (\<exists>k<nat m. observes g s k)) \<and>
      (ok \<longrightarrow> 0 < n \<and> observes g s (n - 1) \<and> (\<forall>j<n - 1. \<not> observes g s j)) \<and>
      (\<not> ok \<longrightarrow> n = nat m))"
  using waitLoop_spec [where g = g and s = s and m = m and a = 0 and r = 0]
  by (simp add: waitForEscrowStateChange_def split: prod.splits)

lemma waitAndRefresh_no_throw:
  "fst (waitAndRefresh chain receipt cb escrowId expectedState m) = Inr ()"
  by (simp add: waitAndRefresh_def Let_def split: sum.splits option.splits prod.splits)

lemma waitAndRefresh_exhausted_any:
  assumes s: "s \<noteq> CREATED" and i: "i \<noteq> 0"
    and never: "\<forall>k<15. \<not> observes (\<lambda>k. getEscrow (chain (chainReads m + k)) i) s k"
  shows "updatingWarning \<in> set (modalToasts (snd (waitAndRefresh chain (Inr ()) cb (Some i) (Some s) m))) \<and>
     chainReads (snd (waitAndRefresh chain (Inr ()) cb (Some i) (Some s) m)) = chainReads m + 16 \<and>
     modalEscrow (snd (waitAndRefresh chain (Inr ()) cb (Some i) (Some s) m)) =
       (case chain (chainReads m + 15) i of Inr r \<Rightarrow> Some r | Inl e \<Rightarrow> None)"
proof -
  let ?g = "\<lambda>k. getEscrow (chain (chainReads m + k)) i"
  obtain ok n where res: "waitForEscrowStateChange ?g s 15 = (ok, n)"
    by (cases "waitForEscrowStateChange ?g s 15")
  with waitForEscrowStateChange_spec [where g = ?g and s = s and m = 15] never
  have "\<not> ok" "n = 15"
    by auto
  with res s i show ?thesis
    by (cases "chain (chainReads m + 15) i")
      (simp_all add: waitAndRefresh_def loadEscrowData_def addToast_def updatingWarning_def
        getEscrow_def Let_def split: option.splits sum.splits)
qed

text \<open>
  C6. \<open>waitForEscrowStateChange\<close> makes at most \<open>maxAttempts\<close> reads. It returns true
  exactly when one of the first \<open>maxAttempts\<close> reads observes the expected state, and
  then it has stopped at the first such read. Otherwise it returns false after
  \<open>maxAttempts\<close> reads; a read that fails or throws counts as one that does not observe
  the state. \<open>waitAndRefresh\<close> never throws; when the receipt has arrived and none of the
  15 reads of the poll observes the expected state, it raises the warning "Transaction
  completed but state may still be updating. Please refresh manually.", and reloads the
  escrow by one more read, whose result is the escrow shown.
\<close>

theorem waitForEscrowStateChange_bounded:
  "(case waitForEscrowStateChange g s maxAttempts of (ok, n) \<Rightarrow>
      n \<le> nat maxAttempts \<and>
      (ok \<longleftrightarrow> (\<exists>k<nat maxAttempts. observes g s k)) \<and>
      (ok \<longrightarrow> 0 < n \<and> observes g s (n - 1) \<and> (\<forall>j<n - 1. \<not> observes g s j)) \<and>
      (\<not> ok \<longrightarrow> n = nat maxAttempts)) \<and>
   fst (waitAndRefresh chain receipt cb escrowId expectedState m) = Inr () \<and>
   (s \<noteq> CREATED \<and> i \<noteq> 0 \<and>
    (\<forall>k<15. \<not> observes (\<lambda>k. getEscrow (chain (chainReads m + k)) i) s k) \<longrightarrow>
      updatingWarning \<in>
        set (modalToasts (snd (waitAndRefresh chain (Inr ()) cb (Some i) (Some s) m))) \<and>
      chainReads (snd (waitAndRefresh chain (Inr ()) cb (Some i) (Some s) m)) =
        chainReads m + 16 \<and>
      modalEscrow (snd (waitAndRefresh chain (Inr ()) cb (Some i) (Some s) m)) =
        (case chain (chainReads m + 15) i of Inr r \<Rightarrow> Some r | Inl e \<Rightarrow> None))"
  using waitForEscrowStateChange_spec [where g = g and s = s and m = maxAttempts]
    waitAndRefresh_no_throw [of chain receipt cb escrowId expectedState m]
    waitAndRefresh_exhausted_any [of s i chain m cb]
  by blast

text \<open>
  Four reads, the fourth of which observes FUNDED, after an absent record, a thrown
  transport failure and a record still in CREATED; a budget of three attempts is used up
  on the same reads; and a chain that never answers leaves the warning in the modal.
\<close>

theorem waitForEscrowStateChange_bounded_witness:
  "waitForEscrowStateChange sampleReads FUNDED 10 = (True, 4) \<and>
   observes sampleReads FUNDED 3 \<and>
   \<not> observes sampleReads FUNDED 0 \<and>
   \<not> observes sampleReads FUNDED 1 \<and>
   \<not> observes sampleReads FUNDED 2 \<and>
   waitForEscrowStateChange sampleReads FUNDED 3 = (False, 3) \<and>
   list_all
     (\<lambda>k. \<not> observes
        (\<lambda>k. getEscrow ((\<lambda>k i. Inl TransportFailure) (chainReads emptyModal + k)) 7) FUNDED k)
     [0..<15] \<and>
   updatingWarning \<in>
     set (modalToasts (snd (waitAndRefresh (\<lambda>k i. Inl TransportFailure) (Inr ()) None
       (Some 7) (Some FUNDED) emptyModal)))"
proof -
  have a: "waitForEscrowStateChange sampleReads FUNDED 10 = (True, 4)"
    by code_simp
  have b: "waitForEscrowStateChange sampleReads FUNDED 3 = (False, 3)"
    by code_simp
  have c: "\<forall>k<15. \<not> observes
      (\<lambda>k. getEscrow ((\<lambda>k i. Inl TransportFailure) (chainReads emptyModal + k)) 7) FUNDED k"
    by (simp add: observes_def getEscrow_def)
  then have c': "list_all
     (\<lambda>k. \<not> observes
        (\<lambda>k. getEscrow ((\<lambda>k i. Inl TransportFailure) (chainReads emptyModal + k)) 7) FUNDED k)
     [0..<15]"
    by (simp add: list_all_iff)
  from waitForEscrowStateChange_bounded
    [where g = sampleReads and s = FUNDED and maxAttempts = 10] a
  have d: "observes sampleReads FUNDED 3 \<and> (\<forall>j<3. \<not> observes sampleReads FUNDED j)"
    by simp
  then have e: "\<not> observes sampleReads FUNDED 0 \<and> \<not> observes sampleReads FUNDED 1 \<and>
      \<not> observes sampleReads FUNDED 2"
    by simp
  from waitForEscrowStateChange_bounded
    [where s = FUNDED and i = 7 and chain = "\<lambda>k i. Inl TransportFailure" and m = emptyModal
      and cb = None] c
  have "updatingWarning \<in>
     set (modalToasts (snd (waitAndRefresh (\<lambda>k i. Inl TransportFailure) (Inr ()) None
       (Some 7) (Some FUNDED) emptyModal)))"
    by simp
  with a b c' d e show ?thesis
    by simp
qed

section \<open>Approval before deposit\<close>

text \<open>
  C7. In every run of \<open>depositNFT\<close> the deposit call is submitted exactly when the approval
  was submitted and the wait for its receipt returned; it is then the third and last step,
  after the submission of the approval and the wait for its receipt. When the submission
  of the approval or the wait for its receipt throws, \<open>depositNFT\<close> throws the same error
  and the deposit call is not in the trace.
\<close>

theorem depositNFT_after_confirmed_approval:
  "(case depositNFT writeContract waitForTransactionReceipt escrowId nftContract' tokenId' of
      (trace, result) \<Rightarrow>
        (WriteContract (depositNFTCall escrowId) \<in> set trace \<longleftrightarrow>
           (\<exists>h. writeContract (approveCall nftContract' tokenId') = Inr h \<and>
                waitForTransactionReceipt h = Inr ())) \<and>
        (WriteContract (depositNFTCall escrowId) \<in> set trace \<longrightarrow>
           (\<exists>h. writeContract (approveCall nftContract' tokenId') = Inr h \<and>
                waitForTransactionReceipt h = Inr () \<and>
                trace = [WriteContract (approveCall nftContract' tokenId'),
                         WaitForTransactionReceipt h,
                         WriteContract (depositNFTCall escrowId)] \<and>
                result = writeContract (depositNFTCall escrowId))) \<and>
        (\<forall>e. writeContract (approveCall nftContract' tokenId') = Inl e \<longrightarrow>
           result = Inl e \<and> trace = [WriteContract (approveCall nftContract' tokenId')]) \<and>
        (\<forall>h e. writeContract (approveCall nftContract' tokenId') = Inr h \<and>
               waitForTransactionReceipt h = Inl e \<longrightarrow>
           result = Inl e \<and>
           trace = [WriteContract (approveCall nftContract' tokenId'),
                    WaitForTransactionReceipt h]))"
proof -
  have ne: "approveCall nftContract' tokenId' \<noteq> depositNFTCall escrowId"
    by (simp add: approveCall_def depositNFTCall_def)
  show ?thesis
  proof (cases "writeContract (approveCall nftContract' tokenId')")
    case (Inl e)
    with ne show ?thesis
      by (simp add: depositNFT_def)
  next
    case (Inr h)
    show ?thesis
    proof (cases "waitForTransactionReceipt h")
      case (Inl e)
      with Inr ne show ?thesis
        by (simp add: depositNFT_def)
    next
      case inr: (Inr u)
      with Inr ne show ?thesis
        by (simp add: depositNFT_def)
    qed
  qed
qed

text \<open>
  A wallet that accepts both calls, one whose user rejects the approval, and one whose
  approval reverts.
\<close>

theorem depositNFT_after_confirmed_approval_witness:
  "depositNFT (\<lambda>c. if functionName c = ''approve'' then Inr ''0xaa'' else Inr ''0xbb'')
     (\<lambda>h. Inr ()) 7 ''0xcccc'' 42 =
     ([WriteContract (approveCall ''0xcccc'' 42), WaitForTransactionReceipt ''0xaa'',
       WriteContract (depositNFTCall 7)], Inr ''0xbb'') \<and>
   depositNFT (\<lambda>c. Inl UserRejected) (\<lambda>h. Inr ()) 7 ''0xcccc'' 42 =
     ([WriteContract (approveCall ''0xcccc'' 42)], Inl UserRejected) \<and>
   depositNFT (\<lambda>c. Inr ''0xaa'') (\<lambda>h. Inl ContractRevert) 7 ''0xcccc'' 42 =
     ([WriteContract (approveCall ''0xcccc'' 42), WaitForTransactionReceipt ''0xaa''],
      Inl ContractRevert)"
proof -
  let ?w = "\<lambda>c. if functionName c = ''approve'' then Inr ''0xaa'' else Inr ''0xbb''"
  have a: "?w (approveCall ''0xcccc'' 42) = (Inr ''0xaa'' :: error + hash)"
    "?w (depositNFTCall 7) = (Inr ''0xbb'' :: error + hash)"
    by (simp_all add: approveCall_def depositNFTCall_def)
  from depositNFT_after_confirmed_approval
    [where writeContract = ?w and waitForTransactionReceipt = "\<lambda>h. Inr ()" and escrowId = 7
      and nftContract' = "''0xcccc''" and tokenId' = 42] a
  have 1: "depositNFT ?w (\<lambda>h. Inr ()) 7 ''0xcccc'' 42 =
     ([WriteContract (approveCall ''0xcccc'' 42), WaitForTransactionReceipt ''0xaa'',
       WriteContract (depositNFTCall 7)], Inr ''0xbb'')"
    by (cases "depositNFT ?w (\<lambda>h. Inr ()) 7 ''0xcccc'' 42") auto
  from depositNFT_after_confirmed_approval
    [where writeContract = "\<lambda>c. Inl UserRejected" and waitForTransactionReceipt = "\<lambda>h. Inr ()"
      and escrowId = 7 and nftContract' = "''0xcccc''" and tokenId' = 42]
  have 2: "depositNFT (\<lambda>c. Inl UserRejected) (\<lambda>h. Inr ()) 7 ''0xcccc'' 42 =
     ([WriteContract (approveCall ''0xcccc'' 42)], Inl UserRejected)"
    by (cases "depositNFT (\<lambda>c. Inl UserRejected) (\<lambda>h. Inr ()) 7 ''0xcccc'' 42") auto
  from depositNFT_after_confirmed_approval
    [where writeContract = "\<lambda>c. Inr ''0xaa''" and waitForTransactionReceipt = "\<lambda>h. Inl ContractRevert"
      and escrowId = 7 and nftContract' = "''0xcccc''" and tokenId' = 42]
  have 3: "depositNFT (\<lambda>c. Inr ''0xaa'') (\<lambda>h. Inl ContractRevert) 7 ''0xcccc'' 42 =
     ([WriteContract (approveCall ''0xcccc'' 42), WaitForTransactionReceipt ''0xaa''],
      Inl ContractRevert)"
    by (cases "depositNFT (\<lambda>c. Inr ''0xaa'') (\<lambda>h. Inl ContractRevert) 7 ''0xcccc'' 42") auto
  from 1 2 3 show ?thesis
    by blast
qed

section \<open>Reading decimal prices\<close>

lemma foldl_decimal:
  "foldl (\<lambda>acc c. 10 * acc + digitValue c) a ds =
     a * 10 ^ length ds + foldl (\<lambda>acc c. 10 * acc + digitValue c) 0 ds"
proof (induction ds arbitrary: a)
  case Nil
  show ?case by simp
next
  case (Cons d ds)
  define f where "f = (\<lambda>acc c. 10 * acc + digitValue c)"
  have 1: "foldl f (10 * a + digitValue d) ds =
      (10 * a + digitValue d) * 10 ^ length ds + foldl f 0 ds"
    unfolding f_def by (rule Cons.IH)
  have 2: "foldl f (digitValue d) ds = digitValue d * 10 ^ length ds + foldl f 0 ds"
    unfolding f_def by (rule Cons.IH)
  have "foldl f a (d # ds) = foldl f (10 * a + digitValue d) ds"
    by (simp add: f_def)
  moreover have "foldl f 0 (d # ds) = foldl f (digitValue d) ds"
    by (simp add: f_def)
  ultimately have "foldl f a (d # ds) = a * 10 ^ length (d # ds) + foldl f 0 (d # ds)"
    by (simp only: 1 2 length_Cons power_Suc) (simp add: algebra_simps)
  then show ?case
    by (simp only: f_def)
qed

lemma decimalValue_append:
  "decimalValue (a @ b) = decimalValue a * 10 ^ length b + decimalValue b"
  unfolding decimalValue_def foldl_append
  by (rule foldl_decimal)

lemma decimalValue_zeros: "decimalValue (replicate k CHR ''0'') = 0"
  by (induction k) (simp_all add: decimalValue_def digitValue_def)

lemma trimTrailingZeros_split:
  "fraction = trimTrailingZeros fraction @
     replicate (length fraction - length (trimTrailingZeros fraction)) CHR ''0''"
proof -
  let ?P = "\<lambda>c. c = CHR ''0''"
  let ?t = "takeWhile ?P (rev fraction)"
  have "\<forall>x \<in> set ?t. x = CHR ''0''"
    by (auto dest: set_takeWhileD)
  then have t: "?t = replicate (length ?t) CHR ''0''"
    by (simp add: replicate_length_same)
  have "rev (?t @ dropWhile ?P (rev fraction)) = rev (rev fraction)"
    by (simp only: takeWhile_dropWhile_id)
  then have "rev (dropWhile ?P (rev fraction)) @ rev ?t = fraction"
    by (simp only: rev_append rev_rev_ident)
  then have split: "fraction = trimTrailingZeros fraction @ rev ?t"
    by (simp only: trimTrailingZeros_def)
  then have "length fraction = length (trimTrailingZeros fraction) + length ?t"
    by (metis length_append length_rev)
  then have "length ?t = length fraction - length (trimTrailingZeros fraction)"
    by simp
  with t have "rev ?t =
      replicate (length fraction - length (trimTrailingZeros fraction)) CHR ''0''"
    by (metis rev_replicate)
  with split show ?thesis
    by simp
qed

lemma isDigit_not_minus: "isDigit c \<Longrightarrow> c \<noteq> CHR ''-''"
  by (auto simp: isDigit_def)

lemma not_isDigit_dot: "\<not> isDigit CHR ''.''"
  by (simp add: isDigit_def)

lemma bigIntOfString_digits:
  "list_all isDigit s \<Longrightarrow> bigIntOfString s = decimalValue s"
  by (cases s) (auto simp: bigIntOfString_def decimalValue_def dest: isDigit_not_minus)

lemma isDigit_not_dot: "isDigit c \<Longrightarrow> c \<noteq> CHR ''.''"
  by (auto simp: isDigit_def)

lemma digitValue_range: "isDigit c \<Longrightarrow> 0 \<le> digitValue c \<and> digitValue c \<le> 9"
proof -
  assume "isDigit c"
  then have "48 \<le> int (of_char c) \<and> int (of_char c) \<le> 57"
    by (simp add: isDigit_def)
  then show ?thesis
    by (simp add: digitValue_def of_nat_of_char)
qed

lemma decimalValue_snoc: "decimalValue (ds @ [c]) = 10 * decimalValue ds + digitValue c"
  by (simp add: decimalValue_def)

lemma decimalValue_range:
  "list_all isDigit ds \<Longrightarrow> 0 \<le> decimalValue ds \<and> decimalValue ds < 10 ^ length ds"
proof (induction ds rule: rev_induct)
  case Nil
  show ?case by (simp add: decimalValue_def)
next
  case (snoc c ds)
  then have "0 \<le> decimalValue ds" "decimalValue ds < 10 ^ length ds"
    "0 \<le> digitValue c" "digitValue c \<le> 9"
    by (simp_all add: digitValue_range)
  then show ?case
    by (simp add: decimalValue_snoc)
qed

lemma decDigit_digit:
  assumes "0 \<le> d" "d < 10"
  shows "isDigit (decDigit d) \<and> digitValue (decDigit d) = d"
proof -
  from assms have "d = 0 \<or> d = 1 \<or> d = 2 \<or> d = 3 \<or> d = 4 \<or> d = 5 \<or> d = 6 \<or> d = 7 \<or>
      d = 8 \<or> d = 9"
    by arith
  then show ?thesis
    by (auto simp: decDigit_def isDigit_def digitValue_def)
qed

lemma toString10_digits:
  "0 \<le> n \<Longrightarrow> list_all isDigit (toString10 n) \<and> decimalValue (toString10 n) = n"
proof (induction n rule: toString10.induct)
  case (1 n)
  show ?case
  proof (cases "n < 10")
    case True
    with "1.prems" decDigit_digit [of n] show ?thesis
      by (simp add: toString10.simps [of n] decimalValue_def)
  next
    case False
    with "1.prems" have "0 \<le> n div 10" "0 \<le> n mod 10" "n mod 10 < 10"
      by simp_all
    with False "1.IH" decDigit_digit [of "n mod 10"] show ?thesis
      by (simp add: toString10.simps [of n] decimalValue_snoc)
  qed
qed

lemma length_toString10:
  "0 < k \<Longrightarrow> n < 10 ^ k \<Longrightarrow> length (toString10 n) \<le> k"
proof (induction n arbitrary: k rule: toString10.induct)
  case (1 n)
  show ?case
  proof (cases "n < 10")
    case True
    with "1.prems" show ?thesis
      by (simp add: toString10.simps [of n] Suc_leI)
  next
    case False
    with "1.prems" have k: "1 < k"
      by (cases "k = 1") auto
    then obtain j where j: "k = Suc j" "0 < j"
      by (cases k) auto
    with "1.prems" have "n div 10 < 10 ^ j"
      by simp
    with False j "1.IH" [of j] show ?thesis
      by (simp add: toString10.simps [of n])
  qed
qed

lemma toString10_one: "0 \<le> n \<Longrightarrow> n < 10 \<Longrightarrow> length (toString10 n) = 1"
  by (simp add: toString10.simps [of n])

lemma bigIntOfString_signed:
  "list_all isDigit ds \<Longrightarrow>
     bigIntOfString (sign negative @ ds) = (if negative then - decimalValue ds else decimalValue ds)"
proof (cases negative)
  case True
  then show ?thesis
    by (simp add: sign_def bigIntOfString_def)
next
  case False
  moreover assume "list_all isDigit ds"
  ultimately show ?thesis
    by (simp add: sign_def bigIntOfString_digits)
qed

text \<open>The branch that rounds off a fraction of more than 18 digits.\<close>

lemma roundNumber_cases:
  "roundNumber unit right = decimalValue unit \<or> roundNumber unit right = decimalValue unit + 1"
  by (simp add: roundNumber_def Let_def)

lemma toString10_carry: "toString10 100000000000000000 = ''100000000000000000''"
  by code_simp

lemma decimalValue_zeros18: "decimalValue ''000000000000000000'' = 0"
  by code_simp

lemma isDigit_zero: "isDigit CHR ''0''"
  by (simp add: isDigit_def)

lemma roundOff_value:
  assumes I: "list_all isDigit integer" and t: "list_all isDigit fraction"
    and len: "18 < length fraction"
  shows "list_all isDigit (fst (roundOff integer fraction 18)) \<and>
     list_all isDigit (snd (roundOff integer fraction 18)) \<and>
     length (snd (roundOff integer fraction 18)) = 18 \<and>
     decimalValue (fst (roundOff integer fraction 18)) * 10 ^ 18 +
       decimalValue (snd (roundOff integer fraction 18)) =
       decimalValue integer * 10 ^ 18 + decimalValue (take 17 fraction) * 10 +
       roundNumber (take 1 (drop 17 fraction)) (drop 18 fraction)"
proof -
  define left where "left = take 17 fraction"
  define unit where "unit = take 1 (drop 17 fraction)"
  define r where "r = roundNumber unit (drop 18 fraction)"
  define f where "f =
    (if r > 9 then padStart (length left + 1) CHR ''0'' (toString10 (bigIntOfString left + 1) @ ''0'')
     else left @ toString10 r)"
  have ro: "roundOff integer fraction 18 =
      (if length f > 18 then toString10 (bigIntOfString integer + 1) else integer,
       take 18 (if length f > 18 then drop 1 f else f))"
    unfolding f_def r_def unit_def left_def by (simp add: roundOff_def Let_def)
  from len have "17 < length fraction"
    by simp
  from Cons_nth_drop_Suc [OF this] have "drop 17 fraction = fraction ! 17 # drop 18 fraction"
    by simp
  then have unit: "unit = [fraction ! 17]"
    by (simp add: unit_def)
  from t len have "isDigit (fraction ! 17)"
    by (simp add: list_all_length)
  then have u: "0 \<le> decimalValue unit" "decimalValue unit \<le> 9"
    unfolding unit by (simp_all add: decimalValue_def digitValue_range)
  from roundNumber_cases [of unit "drop 18 fraction"] u have r: "0 \<le> r" "r \<le> 10"
    by (auto simp: r_def)
  from t have leftd: "list_all isDigit left"
    by (auto simp: left_def list_all_iff dest: in_set_takeD)
  from len have leftl: "length left = 17"
    by (simp add: left_def)
  from decimalValue_range [OF leftd] have leftv: "0 \<le> decimalValue left"
    "decimalValue left < 10 ^ 17"
    unfolding leftl by simp_all
  have goal: "list_all isDigit (fst (roundOff integer fraction 18)) \<and>
     list_all isDigit (snd (roundOff integer fraction 18)) \<and>
     length (snd (roundOff integer fraction 18)) = 18 \<and>
     decimalValue (fst (roundOff integer fraction 18)) * 10 ^ 18 +
       decimalValue (snd (roundOff integer fraction 18)) =
       decimalValue integer * 10 ^ 18 + decimalValue left * 10 + r"
  proof (cases "r \<le> 9")
    case True
    with r have one: "length (toString10 r) = 1"
      by (simp add: toString10_one)
    from True have f: "f = left @ toString10 r"
      by (simp add: f_def)
    then have fl: "length f = 18"
      by (simp add: leftl one)
    from r toString10_digits [of r] have rd: "list_all isDigit (toString10 r)"
      "decimalValue (toString10 r) = r"
      by simp_all
    have fv: "decimalValue f = decimalValue left * 10 + r"
      by (simp add: f decimalValue_append rd one)
    from I leftd rd fl fv show ?thesis
      by (simp add: ro) (simp add: f)
  next
    case False
    with r have r10: "r = 10"
      by simp
    define n where "n = decimalValue left + 1"
    have big: "bigIntOfString left = decimalValue left"
      using leftd by (rule bigIntOfString_digits)
    have f: "f = padStart 18 CHR ''0'' (toString10 n @ ''0'')"
      by (simp add: f_def r10 big n_def leftl)
    show ?thesis
    proof (cases "n < 10 ^ 17")
      case True
      define s where "s = toString10 n"
      from True have sl: "length s \<le> 17"
        unfolding s_def by (intro length_toString10) simp_all
      from leftv toString10_digits [of n] have sd: "list_all isDigit s" "decimalValue s = n"
        by (simp_all add: n_def s_def)
      have f': "f = replicate (17 - length s) CHR ''0'' @ s @ ''0''"
        using sl by (simp add: f padStart_def s_def)
      from sl have fl: "length f = 18"
        by (simp add: f')
      have fd: "list_all isDigit f"
        using sd by (auto simp: f' list_all_iff isDigit_zero)
      have "decimalValue (s @ ''0'') = n * 10"
        by (simp add: decimalValue_snoc sd digitValue_def)
      then have fv: "decimalValue f = n * 10"
        by (simp add: f' decimalValue_append [of "replicate (17 - length s) CHR ''0''"]
            decimalValue_zeros)
      from I fd fl fv show ?thesis
        by (simp add: ro r10 n_def)
    next
      case False
      with leftv have n: "n = 100000000000000000"
        by (simp add: n_def)
      have f': "f = ''1000000000000000000''"
        by (simp add: f n toString10_carry padStart_def)
      have bigI: "bigIntOfString integer = decimalValue integer"
        using I by (rule bigIntOfString_digits)
      have ro': "roundOff integer fraction 18 =
          (toString10 (decimalValue integer + 1), ''000000000000000000'')"
        by (simp add: ro f' bigI)
      from decimalValue_range [OF I] toString10_digits [of "decimalValue integer + 1"]
      have id: "list_all isDigit (toString10 (decimalValue integer + 1))"
        "decimalValue (toString10 (decimalValue integer + 1)) = decimalValue integer + 1"
        by simp_all
      have zd: "list_all isDigit ''000000000000000000''"
        by (simp add: isDigit_zero)
      from n have "decimalValue left * 10 + 10 = 10 ^ 18"
        by (simp add: n_def)
      with id zd show ?thesis
        by (simp add: ro' r10 decimalValue_zeros18 algebra_simps)
    qed
  qed
  then show ?thesis
    by (simp only: left_def r_def unit_def)
qed

text \<open>What \<open>parseEther\<close> makes of a numeral.\<close>

lemma matchesDecimalNumber_point:
  assumes I: "list_all isDigit integer" and F: "list_all isDigit fraction"
  shows "matchesDecimalNumber (sign negative @ integer @ ''.'' @ fraction)"
proof -
  have u: "(case integer @ CHR ''.'' # fraction of [] \<Rightarrow> integer @ CHR ''.'' # fraction
      | c # cs \<Rightarrow> if c = CHR ''-'' then cs else integer @ CHR ''.'' # fraction) =
      integer @ CHR ''.'' # fraction"
    using I by (cases integer) (auto dest: isDigit_not_minus)
  from I have d: "dropWhile isDigit (integer @ CHR ''.'' # fraction) = CHR ''.'' # fraction"
    by (simp add: list_all_iff not_isDigit_dot)
  show ?thesis
  proof (cases negative)
    case True
    with d F show ?thesis
      by (simp add: matchesDecimalNumber_def sign_def)
  next
    case False
    with d F show ?thesis
      by (simp add: matchesDecimalNumber_def sign_def u)
  qed
qed

lemma matchesDecimalNumber_integer:
  assumes I: "list_all isDigit integer"
  shows "matchesDecimalNumber (sign negative @ integer)"
proof -
  have u: "(case integer of [] \<Rightarrow> integer
      | c # cs \<Rightarrow> if c = CHR ''-'' then cs else integer) = integer"
    using I by (cases integer) (auto dest: isDigit_not_minus)
  from I have d: "dropWhile isDigit integer = []"
    by (simp add: list_all_iff)
  show ?thesis
  proof (cases negative)
    case True
    then show ?thesis
      by (simp add: matchesDecimalNumber_def sign_def Let_def d)
  next
    case False
    then show ?thesis
      by (simp add: matchesDecimalNumber_def sign_def u Let_def d)
  qed
qed

lemma sign_integer_no_dot:
  "list_all isDigit integer \<Longrightarrow> \<forall>c \<in> set (sign negative @ integer). c \<noteq> CHR ''.''"
  by (auto simp: sign_def list_all_iff dest: isDigit_not_dot)

lemma negative_sign:
  assumes "list_all isDigit integer"
  shows "(case sign negative @ integer of c # cs \<Rightarrow> c = CHR ''-'' | [] \<Rightarrow> False) = negative"
    and "(if negative then drop 1 (sign negative @ integer) else sign negative @ integer) = integer"
  using assms by (cases integer; auto simp: sign_def dest: isDigit_not_minus)+

lemma trimTrailingZeros_digits:
  "list_all isDigit fraction \<Longrightarrow> list_all isDigit (trimTrailingZeros fraction)"
  by (auto simp: trimTrailingZeros_def list_all_iff dest: set_dropWhileD)

lemma trimTrailingZeros_zero: "trimTrailingZeros ''0'' = []"
  by (simp add: trimTrailingZeros_def)

text \<open>What \<open>parseUnits\<close> does with the integer part and the trimmed fraction.\<close>

lemma parseUnits_digits:
  assumes I: "list_all isDigit integer" and T: "list_all isDigit t"
  shows "(let p = (if length t > 18 then roundOff integer t 18
                   else (integer, padEnd 18 CHR ''0'' t));
              digits = sign negative @ fst p @ snd p
          in if digits = ''-'' then Inl BigIntSyntaxError else Inr (bigIntOfString digits)) =
     Inr ((if negative then - 1 else 1) *
       (if length t \<le> 18 then decimalValue integer * 10 ^ 18 + decimalValue t * 10 ^ (18 - length t)
        else decimalValue integer * 10 ^ 18 + decimalValue (take 17 t) * 10 +
             roundNumber (take 1 (drop 17 t)) (drop 18 t)))"
proof -
  define p where "p = (if length t > 18 then roundOff integer t 18
                   else (integer, padEnd 18 CHR ''0'' t))"
  define m where "m =
    (if length t \<le> 18 then decimalValue integer * 10 ^ 18 + decimalValue t * 10 ^ (18 - length t)
     else decimalValue integer * 10 ^ 18 + decimalValue (take 17 t) * 10 +
          roundNumber (take 1 (drop 17 t)) (drop 18 t))"
  have p: "list_all isDigit (fst p) \<and> list_all isDigit (snd p) \<and> length (snd p) = 18 \<and>
      decimalValue (fst p) * 10 ^ 18 + decimalValue (snd p) = m"
  proof (cases "length t > 18")
    case True
    with roundOff_value [OF I T] show ?thesis
      by (simp add: p_def m_def)
  next
    case False
    have zd: "list_all isDigit (replicate k CHR ''0'')" for k
      by (simp add: list_all_iff isDigit_zero)
    from False I T zd show ?thesis
      by (simp add: p_def m_def padEnd_def decimalValue_append decimalValue_zeros)
  qed
  then have d: "list_all isDigit (fst p @ snd p)"
    by simp
  from p have v: "decimalValue (fst p @ snd p) = m"
    by (simp add: decimalValue_append)
  have ne: "sign negative @ fst p @ snd p \<noteq> ''-''"
  proof
    assume "sign negative @ fst p @ snd p = ''-''"
    then have "length (sign negative @ fst p @ snd p) = 1"
      by simp
    with p show False
      by simp
  qed
  have "bigIntOfString (sign negative @ fst p @ snd p) = (if negative then - m else m)"
    using bigIntOfString_signed [OF d, of negative] v by simp
  with ne show ?thesis
    unfolding p_def [symmetric] m_def [symmetric] Let_def by simp
qed

lemma parseEther_point:
  assumes I: "list_all isDigit integer" and F: "list_all isDigit fraction"
  shows "parseEther (sign negative @ integer @ ''.'' @ fraction) =
     Inr ((if negative then - 1 else 1) *
       (if length (trimTrailingZeros fraction) \<le> 18
        then decimalValue integer * 10 ^ 18 +
             decimalValue (trimTrailingZeros fraction) * 10 ^ (18 - length (trimTrailingZeros fraction))
        else decimalValue integer * 10 ^ 18 + decimalValue (take 17 (trimTrailingZeros fraction)) * 10 +
             roundNumber (take 1 (drop 17 (trimTrailingZeros fraction)))
               (drop 18 (trimTrailingZeros fraction))))"
proof -
  define t where "t = trimTrailingZeros fraction"
  define v where "v = sign negative @ integer @ ''.'' @ fraction"
  have v': "v = (sign negative @ integer) @ CHR ''.'' # fraction"
    by (simp add: v_def)
  have m: "matchesDecimalNumber v"
    unfolding v_def using I F by (rule matchesDecimalNumber_point)
  have tw: "takeWhile (\<lambda>c. c \<noteq> CHR ''.'') v = sign negative @ integer"
    unfolding v' using sign_integer_no_dot [OF I, of negative] by (simp add: takeWhile_append2)
  have dw: "dropWhile (\<lambda>c. c \<noteq> CHR ''.'') v = CHR ''.'' # fraction"
    unfolding v' using sign_integer_no_dot [OF I, of negative] by (simp add: dropWhile_append3)
  have "parseUnits v 18 =
     (let p = (if length t > 18 then roundOff integer t 18
                   else (integer, padEnd 18 CHR ''0'' t));
              digits = sign negative @ fst p @ snd p
          in if digits = ''-'' then Inl BigIntSyntaxError else Inr (bigIntOfString digits))"
    unfolding parseUnits_def Let_def tw dw negative_sign [OF I] t_def
    by (simp add: m sign_def split_beta)
  also note parseUnits_digits [OF I trimTrailingZeros_digits [OF F, folded t_def], of negative]
  finally show ?thesis
    unfolding parseEther_def v_def t_def .
qed

lemma parseEther_integer:
  assumes I: "list_all isDigit integer"
  shows "parseEther (sign negative @ integer) =
     Inr ((if negative then - 1 else 1) * (decimalValue integer * 10 ^ 18))"
proof -
  define v where "v = sign negative @ integer"
  have m: "matchesDecimalNumber v"
    unfolding v_def using I by (rule matchesDecimalNumber_integer)
  have tw: "takeWhile (\<lambda>c. c \<noteq> CHR ''.'') v = sign negative @ integer"
    unfolding v_def using sign_integer_no_dot [OF I, of negative] by simp
  have dw: "dropWhile (\<lambda>c. c \<noteq> CHR ''.'') v = []"
    unfolding v_def using sign_integer_no_dot [OF I, of negative] by simp
  have "parseUnits v 18 =
     (let p = (if length ([] :: string) > 18 then roundOff integer [] 18
                   else (integer, padEnd 18 CHR ''0'' []));
              digits = sign negative @ fst p @ snd p
          in if digits = ''-'' then Inl BigIntSyntaxError else Inr (bigIntOfString digits))"
    unfolding parseUnits_def Let_def tw dw negative_sign [OF I]
    by (simp add: m sign_def trimTrailingZeros_zero)
  also from parseUnits_digits [OF I, of "[]" negative]
  have "\<dots> = Inr ((if negative then - 1 else 1) * (decimalValue integer * 10 ^ 18))"
    by (simp add: decimalValue_def)
  finally show ?thesis
    unfolding parseEther_def v_def .
qed

text \<open>The distance between the rounded digit and the digits it stands for.\<close>

lemma threshold_real:
  assumes k: "0 < k"
  shows "((2 ^ (k - 1) - 1) * 10 ^ L \<le> D * (2 ^ k :: int)) \<longleftrightarrow>
     ((1 / 2 - 1 / 2 ^ k :: real) \<le> of_int D / 10 ^ L)"
proof -
  from k obtain j where j: "k = Suc j"
    by (cases k) auto
  have "((2 ^ (k - 1) - 1) * 10 ^ L \<le> D * (2 ^ k :: int)) \<longleftrightarrow>
      (of_int ((2 ^ (k - 1) - 1) * 10 ^ L) \<le> (of_int (D * 2 ^ k) :: real))"
    by (simp only: of_int_le_iff)
  also have "\<dots> \<longleftrightarrow> ((2 ^ j - 1) * 10 ^ L \<le> of_int D * (2 * 2 ^ j :: real))"
    by (simp add: j)
  also have "\<dots> \<longleftrightarrow> ((2 ^ j - 1) / (2 * 2 ^ j) \<le> of_int D / (10 ^ L :: real))"
    by (simp add: field_simps)
  also have "((2 ^ j - 1) / (2 * 2 ^ j) :: real) = 1 / 2 - 1 / 2 ^ k"
    by (simp add: j field_simps)
  finally show ?thesis .
qed

lemma roundNumber_bound:
  assumes u: "0 \<le> decimalValue unit" and R: "list_all isDigit right"
  shows "\<bar>of_int (roundNumber unit right) -
      (of_int (decimalValue unit) + of_int (decimalValue right) / 10 ^ length right)\<bar>
     \<le> (1 / 2 + 1 / 2 ^ 50 :: real)"
proof -
  define k :: nat where "k = (if decimalValue unit < 1 then 55 else if decimalValue unit < 2 then 53
    else if decimalValue unit < 4 then 52 else if decimalValue unit < 8 then 51 else 50)"
  define x :: real where "x = of_int (decimalValue right) / 10 ^ length right"
  define e :: real where "e = 1 / 2 ^ k"
  define d :: real where "d = 1 / 2 ^ 50"
  have k: "0 < k" "50 \<le> k"
    by (simp_all add: k_def)
  then have "(2 :: real) ^ 50 \<le> 2 ^ k"
    by (intro power_increasing) simp_all
  then have g: "e \<le> d"
    unfolding e_def d_def by (intro divide_left_mono) simp_all
  have g0: "0 < e"
    by (simp add: e_def)
  from decimalValue_range [OF R] have x: "0 \<le> x" "x < 1"
    by (simp_all add: x_def)
  have r: "roundNumber unit right =
      (if 1 / 2 - e \<le> x then decimalValue unit + 1 else decimalValue unit)"
    unfolding x_def e_def threshold_real [OF k(1), symmetric]
    by (simp add: roundNumber_def Let_def k_def)
  have "\<bar>of_int (roundNumber unit right) - (of_int (decimalValue unit) + x)\<bar> \<le> 1 / 2 + d"
  proof (cases "1 / 2 - e \<le> x")
    case True
    with x g g0 show ?thesis
      unfolding r by simp
  next
    case False
    with x g g0 show ?thesis
      unfolding r by simp
  qed
  then show ?thesis
    unfolding x_def d_def .
qed

lemma matchesDecimalNumber_form:
  assumes "matchesDecimalNumber v"
  shows "\<exists>negative integer fraction. list_all isDigit integer \<and> list_all isDigit fraction \<and>
     (v = sign negative @ integer \<or> v = sign negative @ integer @ ''.'' @ fraction)"
proof -
  define negative where "negative \<longleftrightarrow> (case v of c # cs \<Rightarrow> c = CHR ''-'' | [] \<Rightarrow> False)"
  define unsigned where
    "unsigned = (case v of c # cs \<Rightarrow> if c = CHR ''-'' then cs else v | [] \<Rightarrow> v)"
  define integer where "integer = takeWhile isDigit unsigned"
  define rest where "rest = dropWhile isDigit unsigned"
  have v: "v = sign negative @ unsigned"
    by (cases v) (auto simp: negative_def unsigned_def sign_def)
  have un: "unsigned = integer @ rest"
    by (simp add: integer_def rest_def)
  have I: "list_all isDigit integer"
    by (auto simp: integer_def list_all_iff dest: set_takeWhileD)
  from assms have m: "list_all isDigit
      (case rest of c # cs \<Rightarrow> if c = CHR ''.'' then cs else rest | [] \<Rightarrow> rest)"
    unfolding matchesDecimalNumber_def Let_def unsigned_def [symmetric] rest_def [symmetric] .
  show ?thesis
  proof (cases rest)
    case Nil
    with v un I show ?thesis
      by (intro exI [of _ negative] exI [of _ integer] exI [of _ "[]"]) simp
  next
    case (Cons c cs)
    from Cons have ne: "dropWhile isDigit unsigned \<noteq> []"
      by (simp add: rest_def)
    from Cons have "hd (dropWhile isDigit unsigned) = c"
      by (simp add: rest_def)
    with hd_dropWhile [OF ne] have "\<not> isDigit c"
      by simp
    with m Cons have c: "c = CHR ''.''" and F: "list_all isDigit cs"
      by (auto split: if_splits)
    with v un I Cons show ?thesis
      by (intro exI [of _ negative] exI [of _ integer] exI [of _ cs]) simp
  qed
qed

lemma parseEther_refused:
  "\<not> matchesDecimalNumber v \<Longrightarrow> parseEther v = Inl InvalidDecimalNumber"
  by (simp add: parseEther_def parseUnits_def)

lemma fraction_trimmed:
  "(of_int (decimalValue fraction) / 10 ^ length fraction :: real) =
     of_int (decimalValue (trimTrailingZeros fraction)) / 10 ^ length (trimTrailingZeros fraction)"
proof -
  define t where "t = trimTrailingZeros fraction"
  define z where "z = length fraction - length t"
  have f: "fraction = t @ replicate z CHR ''0''"
    unfolding t_def z_def by (rule trimTrailingZeros_split)
  have "decimalValue fraction = decimalValue t * 10 ^ z"
    by (subst f) (simp add: decimalValue_append decimalValue_zeros)
  moreover have "length fraction = length t + z"
    by (subst f) simp
  ultimately show ?thesis
    unfolding t_def [symmetric] by (simp add: power_add)
qed

lemma parseEther_numeral:
  assumes I: "list_all isDigit integer" and F: "list_all isDigit fraction"
  shows "\<exists>wei. parseEther (sign negative @ integer @ ''.'' @ fraction) = Inr wei \<and>
     \<bar>of_int wei - numeralValue negative integer fraction * 10 ^ 18\<bar> \<le> 1 / 2 + 1 / 2 ^ 50 \<and>
     (length (trimTrailingZeros fraction) \<le> 18 \<longrightarrow>
        of_int wei = numeralValue negative integer fraction * 10 ^ 18)"
proof -
  define t where "t = trimTrailingZeros fraction"
  define m where "m =
    (if length t \<le> 18 then decimalValue integer * 10 ^ 18 + decimalValue t * 10 ^ (18 - length t)
     else decimalValue integer * 10 ^ 18 + decimalValue (take 17 t) * 10 +
          roundNumber (take 1 (drop 17 t)) (drop 18 t))"
  define c :: real where "c = 10 ^ 18"
  define ci :: int where "ci = 10 ^ 18"
  define y :: real where "y = of_int (decimalValue t) / 10 ^ length t * c"
  define x :: real where "x = of_int (decimalValue integer) * c + y"
  have ci: "of_int ci = c"
    by (simp add: c_def ci_def)
  have T: "list_all isDigit t"
    unfolding t_def using F by (rule trimTrailingZeros_digits)
  have p: "parseEther (sign negative @ integer @ ''.'' @ fraction) =
      Inr ((if negative then - 1 else 1) * m)"
    unfolding m_def t_def using I F by (rule parseEther_point)
  have nv: "numeralValue negative integer fraction * 10 ^ 18 = (if negative then - 1 else 1) * x"
    by (simp add: numeralValue_def x_def y_def c_def t_def fraction_trimmed [of fraction]
        algebra_simps)
  have short: "of_int m = x" if "length t \<le> 18"
  proof -
    from that have "c / 10 ^ length t = 10 ^ (18 - length t)"
      unfolding c_def by (simp add: power_diff)
    then have "y = of_int (decimalValue t) * 10 ^ (18 - length t)"
      unfolding y_def by (metis times_divide_eq_right times_divide_eq_left)
    moreover from that have "m = decimalValue integer * ci + decimalValue t * 10 ^ (18 - length t)"
      by (simp add: m_def ci_def)
    ultimately show ?thesis
      by (simp add: x_def ci)
  qed
  have long: "\<bar>of_int m - x\<bar> \<le> 1 / 2 + 1 / 2 ^ 50" if len: "18 < length t"
  proof -
    define left where "left = take 17 t"
    define unit where "unit = take 1 (drop 17 t)"
    define right where "right = drop 18 t"
    define q :: real where "q = 10 ^ length right"
    have q: "0 < q"
      by (simp add: q_def)
    have "take 18 t = take 17 t @ take 1 (drop 17 t)"
      using take_add [of 17 1 t] by simp
    then have split: "t = left @ unit @ right"
      unfolding left_def unit_def right_def
      by (metis append_assoc append_take_drop_id)
    from len have ul: "length unit = 1"
      by (simp add: unit_def)
    from len have rl: "length t = 18 + length right"
      by (simp add: right_def)
    from T have "list_all isDigit unit" "list_all isDigit right"
      by (auto simp: unit_def right_def list_all_iff dest: in_set_takeD in_set_dropD)
    then have ur: "0 \<le> decimalValue unit" and R: "list_all isDigit right"
      by (simp_all add: decimalValue_range)
    have "decimalValue t = (decimalValue left * 10 + decimalValue unit) * 10 ^ length right +
        decimalValue right"
      by (subst split) (simp add: decimalValue_append ul algebra_simps)
    then have tv: "of_int (decimalValue t) =
        (of_int (decimalValue left) * 10 + of_int (decimalValue unit)) * q +
        (of_int (decimalValue right) :: real)"
      by (simp add: q_def)
    have "(10 :: real) ^ length t = c * q"
      by (simp add: rl power_add c_def q_def)
    moreover have c0: "c \<noteq> 0"
      by (simp add: c_def)
    ultimately have "y = of_int (decimalValue t) / q"
      by (simp add: y_def)
    also have "\<dots> = of_int (decimalValue left) * 10 + of_int (decimalValue unit) +
        of_int (decimalValue right) / q"
      using q by (simp add: tv field_simps)
    finally have y: "y = of_int (decimalValue left) * 10 +
        (of_int (decimalValue unit) + of_int (decimalValue right) / q)"
      by simp
    from len have "m = decimalValue integer * ci + decimalValue left * 10 + roundNumber unit right"
      by (simp add: m_def left_def unit_def right_def ci_def)
    then have "of_int m - x = of_int (roundNumber unit right) -
        (of_int (decimalValue unit) + of_int (decimalValue right) / q)"
      by (simp add: x_def y ci)
    with roundNumber_bound [OF ur R] show ?thesis
      by (simp add: q_def)
  qed
  have bound: "\<bar>of_int m - x\<bar> \<le> 1 / 2 + 1 / 2 ^ 50"
  proof (cases "length t \<le> 18")
    case True
    then show ?thesis
      by (simp add: short)
  next
    case False
    then show ?thesis
      by (intro long) simp
  qed
  have "\<bar>of_int ((if negative then - 1 else 1) * m) - (if negative then - 1 else 1) * x\<bar> =
      \<bar>of_int m - x\<bar>"
    by (simp add: abs_minus_commute)
  with bound short show ?thesis
    unfolding p nv t_def [symmetric] by (intro exI [of _ "(if negative then - 1 else 1) * m"]) simp
qed

section \<open>Units submitted by createEscrow\<close>

lemma parseEther_one_and_a_half: "parseEther ''1.5'' = Inr 1500000000000000000"
  by code_simp

lemma formatEther_one_and_a_half: "formatEther 1500000000000000000 = ''1.5''"
  by code_simp

lemma parseEther_fee: "parseEther ''0.01'' = Inr 10000000000000000"
  by code_simp

lemma createEscrow_cases:
  "createEscrow writeContract params =
     (case parsePrice (priceEth params) of
        Inl e \<Rightarrow> ([], Inl e)
      | Inr wei \<Rightarrow>
          ([WriteContract
              \<lparr>callAddress = NFT_ESCROW_CONTRACT_ADDRESS,
               functionName = ''createEscrow'',
               args =
                 [AddressArg (param_seller params),
                  AddressArg (param_buyer params),
                  AddressArg (param_nftContract params),
                  UintArg (param_tokenId params),
                  UintArg wei,
                  UintArg (durationHours params * 3600),
                  Bytes32Arg (conversationIdToBytes32 (conversationId params)),
                  StringArg (case param_ipfsMetadata params of Some s \<Rightarrow> s | None \<Rightarrow> [])],
               callValue = None\<rparr>],
           writeContract
              \<lparr>callAddress = NFT_ESCROW_CONTRACT_ADDRESS,
               functionName = ''createEscrow'',
               args =
                 [AddressArg (param_seller params),
                  AddressArg (param_buyer params),
                  AddressArg (param_nftContract params),
                  UintArg (param_tokenId params),
                  UintArg wei,
                  UintArg (durationHours params * 3600),
                  Bytes32Arg (conversationIdToBytes32 (conversationId params)),
                  StringArg (case param_ipfsMetadata params of Some s \<Rightarrow> s | None \<Rightarrow> [])],
               callValue = None\<rparr>))"
  by (simp add: createEscrow_def Let_def split: sum.split)

text \<open>
  C8. Every price that \<open>createEscrow\<close> is given is either refused, and then nothing is
  submitted and \<open>InvalidDecimalNumber\<close> is thrown, or a decimal numeral: at most one minus
  sign, digits, and possibly a point and digits. For every numeral, every duration and
  every wallet, \<open>createEscrow\<close> submits exactly one call, \<open>createEscrow\<close>, whose duration
  argument is \<open>durationHours * 3600\<close> and whose price argument is a number of base units:
  for a numeral without a point, its value times \<open>10 ^ 18\<close>; for a numeral with a point,
  an integer within \<open>1/2 + 1 / 2 ^ 50\<close> of its value times \<open>10 ^ 18\<close>, and that very
  number when the fraction has at most 18 digits before the zeros at its end. The price
  \<open>1.5\<close> is parsed to 1500000000000000000, which \<open>formatPrice\<close> prints as \<open>1.5\<close>.
\<close>

theorem createEscrow_converts_units:
  "(let call = (\<lambda>wei.
          \<lparr>callAddress = NFT_ESCROW_CONTRACT_ADDRESS,
           functionName = ''createEscrow'',
           args =
             [AddressArg (param_seller params),
              AddressArg (param_buyer params),
              AddressArg (param_nftContract params),
              UintArg (param_tokenId params),
              UintArg wei,
              UintArg (durationHours params * 3600),
              Bytes32Arg (conversationIdToBytes32 (conversationId params)),
              StringArg (case param_ipfsMetadata params of Some s \<Rightarrow> s | None \<Rightarrow> [])],
           callValue = None\<rparr>)
    in
      (list_all isDigit integer \<and> priceEth params = sign negative @ integer \<longrightarrow>
         createEscrow writeContract params =
           ([WriteContract (call ((if negative then - 1 else 1) * (decimalValue integer * 10 ^ 18)))],
            writeContract (call ((if negative then - 1 else 1) * (decimalValue integer * 10 ^ 18))))) \<and>
      (list_all isDigit integer \<and> list_all isDigit fraction \<and>
       priceEth params = sign negative @ integer @ ''.'' @ fraction \<longrightarrow>
         (\<exists>wei. createEscrow writeContract params =
                  ([WriteContract (call wei)], writeContract (call wei)) \<and>
            \<bar>of_int wei - numeralValue negative integer fraction * 10 ^ 18\<bar>
              \<le> 1 / 2 + 1 / 2 ^ 50 \<and>
            (length (trimTrailingZeros fraction) \<le> 18 \<longrightarrow>
               of_int wei = numeralValue negative integer fraction * 10 ^ 18))) \<and>
      (createEscrow writeContract params = ([], Inl InvalidDecimalNumber) \<or>
       (\<exists>negative integer fraction. list_all isDigit integer \<and> list_all isDigit fraction \<and>
          (priceEth params = sign negative @ integer \<or>
           priceEth params = sign negative @ integer @ ''.'' @ fraction)))) \<and>
   parsePrice ''1.5'' = Inr 1500000000000000000 \<and>
   formatPrice 1500000000000000000 = ''1.5''"
proof -
  define call where "call = (\<lambda>wei.
          \<lparr>callAddress = NFT_ESCROW_CONTRACT_ADDRESS,
           functionName = ''createEscrow'',
           args =
             [AddressArg (param_seller params),
              AddressArg (param_buyer params),
              AddressArg (param_nftContract params),
              UintArg (param_tokenId params),
              UintArg wei,
              UintArg (durationHours params * 3600),
              Bytes32Arg (conversationIdToBytes32 (conversationId params)),
              StringArg (case param_ipfsMetadata params of Some s \<Rightarrow> s | None \<Rightarrow> [])],
           callValue = None\<rparr>)"
  have ce: "createEscrow writeContract params =
     (case parsePrice (priceEth params) of
        Inl e \<Rightarrow> ([], Inl e)
      | Inr wei \<Rightarrow> ([WriteContract (call wei)], writeContract (call wei)))"
    unfolding call_def by (rule createEscrow_cases)
  have 1: "createEscrow writeContract params =
      ([WriteContract (call ((if negative then - 1 else 1) * (decimalValue integer * 10 ^ 18)))],
       writeContract (call ((if negative then - 1 else 1) * (decimalValue integer * 10 ^ 18))))"
    if "list_all isDigit integer" "priceEth params = sign negative @ integer"
  proof -
    from that have "parsePrice (priceEth params) =
        Inr ((if negative then - 1 else 1) * (decimalValue integer * 10 ^ 18))"
      by (simp only: parsePrice_def parseEther_integer)
    then show ?thesis
      by (simp only: ce sum.case)
  qed
  have 2: "\<exists>wei. createEscrow writeContract params =
        ([WriteContract (call wei)], writeContract (call wei)) \<and>
      \<bar>of_int wei - numeralValue negative integer fraction * 10 ^ 18\<bar> \<le> 1 / 2 + 1 / 2 ^ 50 \<and>
      (length (trimTrailingZeros fraction) \<le> 18 \<longrightarrow>
         of_int wei = numeralValue negative integer fraction * 10 ^ 18)"
    if "list_all isDigit integer" "list_all isDigit fraction"
      "priceEth params = sign negative @ integer @ ''.'' @ fraction"
  proof -
    from parseEther_numeral [OF that(1,2), of negative] obtain wei where
      wei: "parseEther (sign negative @ integer @ ''.'' @ fraction) = Inr wei"
        "\<bar>of_int wei - numeralValue negative integer fraction * 10 ^ 18\<bar> \<le> 1 / 2 + 1 / 2 ^ 50"
        "length (trimTrailingZeros fraction) \<le> 18 \<longrightarrow>
           of_int wei = numeralValue negative integer fraction * 10 ^ 18"
      by blast
    from wei(1) that(3) have "parsePrice (priceEth params) = Inr wei"
      by (simp only: parsePrice_def)
    then have "createEscrow writeContract params =
        ([WriteContract (call wei)], writeContract (call wei))"
      by (simp only: ce sum.case)
    with wei(2,3) show ?thesis
      by blast
  qed
  have 3: "createEscrow writeContract params = ([], Inl InvalidDecimalNumber) \<or>
      (\<exists>negative integer fraction. list_all isDigit integer \<and> list_all isDigit fraction \<and>
         (priceEth params = sign negative @ integer \<or>
          priceEth params = sign negative @ integer @ ''.'' @ fraction))"
  proof (cases "matchesDecimalNumber (priceEth params)")
    case True
    then show ?thesis
      by (blast dest: matchesDecimalNumber_form)
  next
    case False
    then have "parsePrice (priceEth params) = Inl InvalidDecimalNumber"
      by (simp add: parsePrice_def parseEther_refused)
    then have "createEscrow writeContract params = ([], Inl InvalidDecimalNumber)"
      by (simp only: ce sum.case)
    then show ?thesis
      by blast
  qed
  have 4: "parsePrice ''1.5'' = Inr 1500000000000000000"
    by (simp only: parsePrice_def parseEther_one_and_a_half)
  have 5: "formatPrice 1500000000000000000 = ''1.5''"
    by (simp only: formatPrice_def formatEther_one_and_a_half)
  from 1 2 3 4 5 show ?thesis
    unfolding Let_def call_def [symmetric] by blast
qed

text \<open>
  A day at the price \<open>1.5\<close> is submitted as 86400 seconds and 1500000000000000000 base
  units; the price \<open>0.0000000000000000015\<close>, one and a half base units, is submitted as 2
  base units; the price \<open>1,5\<close> is refused.
\<close>

theorem createEscrow_converts_units_witness:
  "list_all isDigit ''1'' \<and> list_all isDigit ''5'' \<and>
   priceEth sampleParams = sign False @ ''1'' @ ''.'' @ ''5'' \<and>
   length (trimTrailingZeros ''5'') \<le> 18 \<and>
   numeralValue False ''1'' ''5'' * 10 ^ 18 = 1500000000000000000 \<and>
   (\<exists>call. createEscrow (\<lambda>c. Inr ''0xaa'') sampleParams = ([WriteContract call], Inr ''0xaa'') \<and>
      args call ! 4 = UintArg 1500000000000000000 \<and> args call ! 5 = UintArg 86400) \<and>
   parsePrice ''0.0000000000000000015'' = Inr 2 \<and>
   (\<exists>call. createEscrow (\<lambda>c. Inr ''0xaa'')
             (sampleParams\<lparr>priceEth := ''0.0000000000000000015''\<rparr>) =
           ([WriteContract call], Inr ''0xaa'') \<and>
      args call ! 4 = UintArg 2 \<and> args call ! 5 = UintArg 86400) \<and>
   parsePrice ''1,5'' = Inl InvalidDecimalNumber \<and>
   createEscrow (\<lambda>c. Inr ''0xaa'') (sampleParams\<lparr>priceEth := ''1,5''\<rparr>) =
     ([], Inl InvalidDecimalNumber)"
proof -
  have d: "list_all isDigit ''1'' \<and> list_all isDigit ''5'' \<and>
      priceEth sampleParams = sign False @ ''1'' @ ''.'' @ ''5'' \<and>
      length (trimTrailingZeros ''5'') \<le> 18"
    by code_simp
  have v: "decimalValue ''1'' = 1" "decimalValue ''5'' = 5"
    by code_simp+
  have n: "numeralValue False ''1'' ''5'' * 10 ^ 18 = 1500000000000000000"
    by (simp add: numeralValue_def v)
  have h: "durationHours sampleParams * 3600 = 86400"
    by (simp add: sampleParams_def)
  from createEscrow_converts_units
    [where params = sampleParams and writeContract = "\<lambda>c. Inr ''0xaa''" and negative = False
       and integer = "''1''" and fraction = "''5''"] d
  obtain wei where wei: "of_int wei = numeralValue False ''1'' ''5'' * 10 ^ 18"
    and ce: "\<exists>call. createEscrow (\<lambda>c. Inr ''0xaa'') sampleParams =
        ([WriteContract call], Inr ''0xaa'') \<and>
        args call ! 4 = UintArg wei \<and> args call ! 5 = UintArg (durationHours sampleParams * 3600)"
    unfolding Let_def by fastforce
  from wei n have "wei = 1500000000000000000"
    by simp
  with ce h have 1: "\<exists>call. createEscrow (\<lambda>c. Inr ''0xaa'') sampleParams =
      ([WriteContract call], Inr ''0xaa'') \<and>
      args call ! 4 = UintArg 1500000000000000000 \<and> args call ! 5 = UintArg 86400"
    by simp
  have p: "parsePrice ''0.0000000000000000015'' = Inr 2"
    by code_simp
  have 2: "\<exists>call. createEscrow (\<lambda>c. Inr ''0xaa'')
            (sampleParams\<lparr>priceEth := ''0.0000000000000000015''\<rparr>) =
          ([WriteContract call], Inr ''0xaa'') \<and>
      args call ! 4 = UintArg 2 \<and> args call ! 5 = UintArg 86400"
    by (simp add: createEscrow_cases p sampleParams_def)
  have q: "parsePrice ''1,5'' = Inl InvalidDecimalNumber"
    by code_simp
  have 3: "createEscrow (\<lambda>c. Inr ''0xaa'') (sampleParams\<lparr>priceEth := ''1,5''\<rparr>) =
      ([], Inl InvalidDecimalNumber)"
    by (simp add: createEscrow_cases q)
  from d n 1 p 2 q 3 show ?thesis
    by (simp only: simp_thms)
qed

section \<open>The dispute fee\<close>

text \<open>
  C9. Whatever the escrow identifier, the reason and the wallet, \<open>raiseDispute\<close> submits
  one call, \<open>raiseDispute\<close>, with the value 10000000000000000, that is \<open>10 ^ 16\<close> base units
  or 0.01 in decimal units.
\<close>

theorem raiseDispute_fixed_fee:
  "raiseDispute writeContract escrowId reason =
     ([WriteContract
         \<lparr>callAddress = NFT_ESCROW_CONTRACT_ADDRESS, functionName = ''raiseDispute'',
          args = [UintArg escrowId, StringArg reason],
          callValue = Some 10000000000000000\<rparr>],
      writeContract
         \<lparr>callAddress = NFT_ESCROW_CONTRACT_ADDRESS, functionName = ''raiseDispute'',
          args = [UintArg escrowId, StringArg reason],
          callValue = Some 10000000000000000\<rparr>) \<and>
   (10000000000000000 :: int) = 10 ^ 16"
  by (simp add: raiseDispute_def parseEther_fee Let_def)

section \<open>The number of an escrow in its conversation\<close>




















end
